theory Spec2Isabelle
  imports Main "HOL-Library.AList" "HOL-Library.Sublist"
begin

section \<open>Python library functions used by the scanner\<close>

text \<open>
  \<^verbatim>\<open>file_scanner.py\<close> calls a handful of functions of the Python standard library.
  They are modelled here after their CPython (POSIX) implementations. File names are
  modelled as \<open>string\<close>, i.e. ASCII-range characters.
\<close>

subsection \<open>\<open>str.lower\<close>, \<open>in\<close>, \<open>str.rfind\<close>\<close>

definition lower_char :: "char \<Rightarrow> char" where
  "lower_char c =
     (case map_of (zip ''ABCDEFGHIJKLMNOPQRSTUVWXYZ'' ''abcdefghijklmnopqrstuvwxyz'') c of
        Some l \<Rightarrow> l
      | None \<Rightarrow> c)"

definition lower :: "string \<Rightarrow> string" where
  "lower s = map lower_char s"

text \<open>\<open>sub in s\<close> on strings: \<open>sub\<close> occurs in \<open>s\<close> as a contiguous block.\<close>

definition str_in :: "string \<Rightarrow> string \<Rightarrow> bool" where
  "str_in sub s = sublist sub s"

text \<open>\<open>s.rfind(c)\<close> for a one-character \<open>c\<close>: the highest index of \<open>c\<close>, or \<open>-1\<close>.\<close>

fun rfind :: "string \<Rightarrow> char \<Rightarrow> int" where
  "rfind [] c = - 1"
| "rfind (x # xs) c =
     (let r = rfind xs c in if 0 \<le> r then r + 1 else if x = c then 0 else - 1)"

subsection \<open>\<open>os.path.basename\<close>, \<open>os.path.join\<close>, \<open>os.path.splitext\<close>\<close>

text \<open>
  \<^verbatim>\<open>
  def basename(p):
      i = p.rfind(sep) + 1
      return p[i:]
  \<close>
\<close>

definition basename :: "string \<Rightarrow> string" where
  "basename p = (let i = rfind p CHR ''/'' + 1 in drop (nat i) p)"

text \<open>
  \<^verbatim>\<open>
  def join(a, b):
      path = a
      if b.startswith(sep):            path = b
      elif not path or path.endswith(sep): path += b
      else:                            path += sep + b
      return path
  \<close>
\<close>

definition join :: "string \<Rightarrow> string \<Rightarrow> string" where
  "join a b =
     (if b \<noteq> [] \<and> hd b = CHR ''/'' then b
      else if a = [] \<or> last a = CHR ''/'' then a @ b
      else a @ ''/'' @ b)"

text \<open>
  \<^verbatim>\<open>
  def _splitext(p, sep, altsep, extsep):
      sepIndex = p.rfind(sep)
      dotIndex = p.rfind(extsep)
      if dotIndex > sepIndex:
          # skip all leading dots
          filenameIndex = sepIndex + 1
          while filenameIndex < dotIndex:
              if p[filenameIndex:filenameIndex+1] != extsep:
                  return p[:dotIndex], p[dotIndex:]
              filenameIndex += 1
      return p, p[:0]
  \<close>
  The loop is \<open>splitext_loop\<close>: \<open>True\<close> when it returns the split from inside the loop,
  \<open>False\<close> when it runs out.
\<close>

function splitext_loop :: "string \<Rightarrow> nat \<Rightarrow> nat \<Rightarrow> bool" where
  "splitext_loop p filenameIndex dotIndex =
     (if filenameIndex < dotIndex then
        (if take 1 (drop filenameIndex p) \<noteq> ''.'' then True
         else splitext_loop p (Suc filenameIndex) dotIndex)
      else False)"
  by pat_completeness auto
termination
  by (relation "measure (\<lambda>(p, filenameIndex, dotIndex). dotIndex - filenameIndex)") auto

declare splitext_loop.simps [simp del]

definition splitext :: "string \<Rightarrow> string \<times> string" where
  "splitext p =
     (let sepIndex = rfind p CHR ''/'';
          dotIndex = rfind p CHR ''.''
      in if dotIndex > sepIndex \<and> splitext_loop p (nat (sepIndex + 1)) (nat dotIndex)
         then (take (nat dotIndex) p, drop (nat dotIndex) p)
         else (p, []))"

subsection \<open>\<open>datetime.strftime\<close> with the format \<open>%Y-%m-%d %H:%M:%S\<close>\<close>

text \<open>
  A \<open>datetime\<close> object is a broken-down local time. Python keeps its fields in range:
  year 1..9999, month 1..12, day 1..31, hour 0..23, minute and second 0..59,
  microsecond 0..999999.
\<close>

record datetime =
  dt_year :: nat
  dt_month :: nat
  dt_day :: nat
  dt_hour :: nat
  dt_minute :: nat
  dt_second :: nat
  dt_microsecond :: nat

definition valid_datetime :: "datetime \<Rightarrow> bool" where
  "valid_datetime d \<longleftrightarrow>
     1 \<le> dt_year d \<and> dt_year d \<le> 9999 \<and> 1 \<le> dt_month d \<and> dt_month d \<le> 12 \<and>
     1 \<le> dt_day d \<and> dt_day d \<le> 31 \<and> dt_hour d < 24 \<and> dt_minute d < 60 \<and>
     dt_second d < 60 \<and> dt_microsecond d < 1000000"

definition digit :: "nat \<Rightarrow> char" where
  "digit n = ''0123456789'' ! (n mod 10)"

text \<open>\<open>%m\<close>, \<open>%d\<close>, \<open>%H\<close>, \<open>%M\<close>, \<open>%S\<close>: two decimal digits, zero padded.\<close>

definition pad2 :: "nat \<Rightarrow> string" where
  "pad2 n = [digit (n div 10), digit n]"

text \<open>
  \<open>%Y\<close>: the year in decimal, as the C library of Linux prints it: without leading
  zeros, so with fewer than four digits for a year below 1000.
\<close>

function decimal :: "nat \<Rightarrow> string" where
  "decimal n = (if n < 10 then [digit n] else decimal (n div 10) @ [digit n])"
  by pat_completeness auto
termination
  by (relation "measure (\<lambda>n. n)") auto

declare decimal.simps [simp del]

definition strftime :: "datetime \<Rightarrow> string" where
  "strftime d =
     decimal (dt_year d) @ ''-'' @ pad2 (dt_month d) @ ''-'' @ pad2 (dt_day d) @ '' '' @
     pad2 (dt_hour d) @ '':'' @ pad2 (dt_minute d) @ '':'' @ pad2 (dt_second d)"

section \<open>The environment: file system and log\<close>

text \<open>
  Python exceptions. Everything raised inside \<open>_extract_metadata\<close> is an instance of
  \<open>Exception\<close>: the scanner's own \<open>RuntimeError\<close>s, \<open>OSError\<close> (with its subclasses
  \<open>FileNotFoundError\<close>, \<open>PermissionError\<close>) from \<open>os.path.getsize\<close> and
  \<open>os.path.getmtime\<close>, and \<open>OverflowError\<close>/\<open>ValueError\<close>/\<open>OSError\<close> from
  \<open>datetime.fromtimestamp\<close>.
\<close>

datatype runtime_message =
    Simulated_failure
      \<comment> \<open>\<^verbatim>\<open>"Simulated failure - filename contains 'fail'"\<close>\<close>
  | Counter_mismatch int int int
      \<comment> \<open>\<^verbatim>\<open>f"Counter mismatch: discovered={..}, processed={..}, failed={..}"\<close>\<close>

datatype exn =
    RuntimeError runtime_message
  | OSError string
  | OverflowError string
  | ValueError string

text \<open>
  The file system as the scanner reads it: \<open>os.walk(root)\<close> as the finite list of
  \<open>(root, dirs, files)\<close> triples it yields, \<open>os.path.getsize(path)\<close>, and
  \<open>datetime.fromtimestamp(os.path.getmtime(path))\<close>, each of the last two either raising
  or returning.
\<close>

record filesystem =
  os_walk :: "string \<Rightarrow> (string \<times> string list \<times> string list) list"
  getsize :: "string \<Rightarrow> exn + nat"
  getmtime_local :: "string \<Rightarrow> exn + datetime"

text \<open>The records that the \<open>logging\<close> calls of the scanner emit, one constructor per call.\<close>

datatype log_record =
    Error_failed string exn
      \<comment> \<open>\<^verbatim>\<open>logging.error(f"[FAILED] {full_path} -> {e}")\<close>\<close>
  | Warning_zero_byte string
      \<comment> \<open>\<^verbatim>\<open>logging.warning(f"Zero-byte file detected: {path}")\<close>\<close>
  | Warning_large_file int string nat
      \<comment> \<open>\<^verbatim>\<open>logging.warning(f"Large file (>{threshold_mb} MB): {path} ({size} bytes)")\<close>\<close>
  | Info_discovered int
  | Info_processed int
  | Info_failed int
  | Info_extension string int
      \<comment> \<open>\<^verbatim>\<open>logging.info(f"  {ext} -> {count} file(s)")\<close>\<close>
  | Info_large_files nat
      \<comment> \<open>\<^verbatim>\<open>logging.info(f"Large files: {len(self.large_files)}")\<close>\<close>
  | Info_duplicate string "string list"
      \<comment> \<open>\<^verbatim>\<open>logging.info(f"Duplicate -> {name}: {paths}")\<close>\<close>

section \<open>\<open>FileScanner\<close>\<close>

text \<open>
  The instance attributes, and the log as the last field. The two \<open>defaultdict\<close>s are
  association lists in insertion order, as Python dictionaries iterate.
\<close>

record scanner =
  root_path :: string
  large_file_threshold_bytes :: int
  total_discovered :: int
  total_processed :: int
  total_failed :: int
  extension_count :: "(string \<times> int) list"
  large_files :: "string list"
  duplicates :: "(string \<times> string list) list"
  logged :: "log_record list"

text \<open>The dictionary returned by \<open>_extract_metadata\<close>.\<close>

record file_meta =
  meta_path :: string
  meta_size :: nat
  meta_extension :: string
  meta_modified :: string

text \<open>\<open>__init__\<close>. The log starts as the caller passes it.\<close>

definition init :: "string \<Rightarrow> int \<Rightarrow> log_record list \<Rightarrow> scanner" where
  "init root large_file_threshold_mb lg =
     \<lparr> root_path = root,
       large_file_threshold_bytes = large_file_threshold_mb * 1024 * 1024,
       total_discovered = 0,
       total_processed = 0,
       total_failed = 0,
       extension_count = [],
       large_files = [],
       duplicates = [],
       logged = lg \<rparr>"

text \<open>
  \<open>d[k] += 1\<close> on a \<open>defaultdict(int)\<close> and \<open>d[k].append(v)\<close> on a \<open>defaultdict(list)\<close>: a
  missing key is inserted at the end with the default, a present key keeps its place.
\<close>

definition dict_incr :: "(string \<times> int) list \<Rightarrow> string \<Rightarrow> (string \<times> int) list" where
  "dict_incr d k =
     AList.update k ((case map_of d k of None \<Rightarrow> 0 | Some c \<Rightarrow> c) + 1) d"

definition dict_append ::
  "(string \<times> string list) list \<Rightarrow> string \<Rightarrow> string \<Rightarrow> (string \<times> string list) list" where
  "dict_append d k v =
     AList.update k ((case map_of d k of None \<Rightarrow> [] | Some vs \<Rightarrow> vs) @ [v]) d"

text \<open>
  \<open>_extract_metadata\<close>. Python mutates the instance in place, so the scanner after the
  call is returned whether the call raises (\<open>Inl\<close>) or returns (\<open>Inr\<close>).
\<close>

definition extract_metadata ::
  "filesystem \<Rightarrow> scanner \<Rightarrow> string \<Rightarrow> (exn + file_meta) \<times> scanner" where
  "extract_metadata fs s path =
     (if str_in ''fail'' (lower (basename path)) then
        (Inl (RuntimeError Simulated_failure), s)
      else
        case getsize fs path of
          Inl e \<Rightarrow> (Inl e, s)
        | Inr sz \<Rightarrow>
            let ext = (if snd (splitext path) \<noteq> [] then snd (splitext path)
                       else ''<no-ext>'')
            in (case getmtime_local fs path of
                 Inl e \<Rightarrow> (Inl e, s)
               | Inr dt \<Rightarrow>
                   let modified = strftime dt;
                       s1 = s\<lparr>extension_count := dict_incr (extension_count s) ext\<rparr>;
                       s2 = (if sz = 0 then
                               s1\<lparr>logged := logged s1 @ [Warning_zero_byte path]\<rparr>
                             else if int sz > large_file_threshold_bytes s1 then
                               let threshold_mb =
                                     large_file_threshold_bytes s1 div (1024 * 1024)
                               in s1\<lparr>logged := logged s1 @
                                        [Warning_large_file threshold_mb path sz],
                                     large_files := large_files s1 @ [path]\<rparr>
                             else s1);
                       s3 = s2\<lparr>duplicates :=
                                 dict_append (duplicates s2) (basename path) path\<rparr>
                   in (Inr \<lparr> meta_path = path, meta_size = sz, meta_extension = ext,
                             meta_modified = modified \<rparr>, s3)))"

text \<open>\<open>_verify_counters\<close>.\<close>

definition verify_counters :: "scanner \<Rightarrow> exn + unit" where
  "verify_counters s =
     (if total_discovered s \<noteq> total_processed s + total_failed s then
        Inl (RuntimeError
               (Counter_mismatch (total_discovered s) (total_processed s) (total_failed s)))
      else Inr ())"

text \<open>
  \<open>scan\<close>, consumed to exhaustion by a \<open>for\<close> loop as in \<open>main.py\<close>. One step of the
  inner loop handles one file name and yields one item: \<open>Some meta\<close>, or \<open>None\<close> for
  Python's \<open>None\<close>.
\<close>

definition scan_file ::
  "filesystem \<Rightarrow> string \<Rightarrow> scanner \<Rightarrow> string \<Rightarrow> file_meta option \<times> scanner" where
  "scan_file fs root s filename =
     (let full_path = join root filename;
          s1 = s\<lparr>total_discovered := total_discovered s + 1\<rparr>
      in case extract_metadata fs s1 full_path of
           (Inr meta, s2) \<Rightarrow> (Some meta, s2\<lparr>total_processed := total_processed s2 + 1\<rparr>)
         | (Inl e, s2) \<Rightarrow>
             (None, s2\<lparr>total_failed := total_failed s2 + 1,
                       logged := logged s2 @ [Error_failed full_path e]\<rparr>))"

fun scan_files ::
  "filesystem \<Rightarrow> string \<Rightarrow> scanner \<Rightarrow> string list \<Rightarrow> file_meta option list \<times> scanner" where
  "scan_files fs root s [] = ([], s)"
| "scan_files fs root s (filename # files) =
     (let (y, s1) = scan_file fs root s filename;
          (ys, s2) = scan_files fs root s1 files
      in (y # ys, s2))"

fun scan_walk ::
  "filesystem \<Rightarrow> scanner \<Rightarrow> (string \<times> string list \<times> string list) list \<Rightarrow>
   file_meta option list \<times> scanner" where
  "scan_walk fs s [] = ([], s)"
| "scan_walk fs s ((root, dirs, files) # rest) =
     (let (ys, s1) = scan_files fs root s files;
          (zs, s2) = scan_walk fs s1 rest
      in (ys @ zs, s2))"

text \<open>
  The whole generator: the items yielded, how it ends (\<open>Inr ()\<close> for a normal end,
  \<open>Inl e\<close> when \<open>_verify_counters\<close> raises after the last item), and the scanner after it.
\<close>

definition scan ::
  "filesystem \<Rightarrow> scanner \<Rightarrow> file_meta option list \<times> (exn + unit) \<times> scanner" where
  "scan fs s =
     (let (ys, s1) = scan_walk fs s (os_walk fs (root_path s))
      in (ys, verify_counters s1, s1))"

text \<open>\<open>get_summary\<close>: the dictionary it returns, as a record.\<close>

record summary =
  sum_total_discovered :: int
  sum_total_processed :: int
  sum_total_failed :: int
  sum_extension_count :: "(string \<times> int) list"
  sum_large_files :: "string list"
  sum_duplicates :: "(string \<times> string list) list"

definition get_summary :: "scanner \<Rightarrow> (exn + summary) \<times> scanner" where
  "get_summary s =
     (case verify_counters s of
        Inl e \<Rightarrow> (Inl e, s)
      | Inr _ \<Rightarrow>
          (Inr \<lparr> sum_total_discovered = total_discovered s,
                 sum_total_processed = total_processed s,
                 sum_total_failed = total_failed s,
                 sum_extension_count = extension_count s,
                 sum_large_files = large_files s,
                 sum_duplicates = duplicates s \<rparr>, s))"

text \<open>\<open>report_summary\<close> and \<open>report_duplicates\<close>: what they log.\<close>

definition report_summary :: "scanner \<Rightarrow> scanner" where
  "report_summary s =
     s\<lparr>logged := logged s @
         [Info_discovered (total_discovered s),
          Info_processed (total_processed s),
          Info_failed (total_failed s)] @
         map (\<lambda>(ext, count). Info_extension ext count) (extension_count s) @
         [Info_large_files (length (large_files s))]\<rparr>"

definition report_duplicates :: "scanner \<Rightarrow> scanner" where
  "report_duplicates s =
     s\<lparr>logged := logged s @
         map (\<lambda>(name, paths). Info_duplicate name paths)
           (filter (\<lambda>(name, paths). length paths > 1) (duplicates s))\<rparr>"

text \<open>
  \<open>ReportWriter.write_report\<close>, the section "Duplicate File Names" (lines 60 to 73): the
  strings passed to \<open>f.write\<close> after the heading, in order.
\<close>

definition write_report_duplicates :: "summary \<Rightarrow> string list" where
  "write_report_duplicates summ =
     (let dups = filter (\<lambda>(name, paths). length paths > 1) (sum_duplicates summ)
      in if dups \<noteq> [] then
           concat (map (\<lambda>(name, paths).
                     [''### `'' @ name @ ''`\<newline>''] @
                     map (\<lambda>p. ''- `'' @ p @ ''`\<newline>'') paths @
                     [''\<newline>'']) dups)
         else [''_No duplicates found._\<newline>''])"

section \<open>Notions used to state the properties\<close>

text \<open>The counter invariant, as \<open>_verify_counters\<close> tests it (line 103).\<close>

definition counters_consistent :: "scanner \<Rightarrow> bool" where
  "counters_consistent s \<longleftrightarrow> total_discovered s = total_processed s + total_failed s"

text \<open>
  The exception that \<open>_extract_metadata\<close> raises on a path, if any: the three places of
  lines 66 to 73 that can raise, in their order.
\<close>

definition extract_raises :: "filesystem \<Rightarrow> string \<Rightarrow> exn option" where
  "extract_raises fs path =
     (if str_in ''fail'' (lower (basename path)) then Some (RuntimeError Simulated_failure)
      else case getsize fs path of
             Inl e \<Rightarrow> Some e
           | Inr sz \<Rightarrow> (case getmtime_local fs path of Inl e \<Rightarrow> Some e | Inr dt \<Rightarrow> None))"

text \<open>The extension that line 70 computes: \<open>os.path.splitext(path)[1] or "<no-ext>"\<close>.\<close>

definition extension_of :: "string \<Rightarrow> string" where
  "extension_of path = (if snd (splitext path) \<noteq> [] then snd (splitext path) else ''<no-ext>'')"

text \<open>
  What a successful extraction appends to \<open>large_files\<close> and to the log (lines 79 to 86),
  for a file of \<open>sz\<close> bytes and a threshold of \<open>t\<close> bytes.
\<close>

definition large_entry :: "int \<Rightarrow> string \<Rightarrow> nat \<Rightarrow> string list" where
  "large_entry t path sz = (if sz \<noteq> 0 \<and> int sz > t then [path] else [])"

definition size_warning :: "int \<Rightarrow> string \<Rightarrow> nat \<Rightarrow> log_record list" where
  "size_warning t path sz =
     (if sz = 0 then [Warning_zero_byte path]
      else if int sz > t then [Warning_large_file (t div (1024 * 1024)) path sz]
      else [])"

text \<open>
  One turn of the inner loop of \<open>scan\<close> from the point where \<open>full_path\<close> is known
  (lines 44 to 54), and the loop over a list of full paths.
\<close>

definition scan_path ::
  "filesystem \<Rightarrow> scanner \<Rightarrow> string \<Rightarrow> file_meta option \<times> scanner" where
  "scan_path fs s full_path =
     (let s1 = s\<lparr>total_discovered := total_discovered s + 1\<rparr>
      in case extract_metadata fs s1 full_path of
           (Inr meta, s2) \<Rightarrow> (Some meta, s2\<lparr>total_processed := total_processed s2 + 1\<rparr>)
         | (Inl e, s2) \<Rightarrow>
             (None, s2\<lparr>total_failed := total_failed s2 + 1,
                       logged := logged s2 @ [Error_failed full_path e]\<rparr>))"

fun scan_paths ::
  "filesystem \<Rightarrow> scanner \<Rightarrow> string list \<Rightarrow> file_meta option list \<times> scanner" where
  "scan_paths fs s [] = ([], s)"
| "scan_paths fs s (p # ps) =
     (let (y, s1) = scan_path fs s p;
          (ys, s2) = scan_paths fs s1 ps
      in (y # ys, s2))"

text \<open>The full paths of the files of a walk, in the order in which \<open>scan\<close> meets them.\<close>

definition walk_paths :: "(string \<times> string list \<times> string list) list \<Rightarrow> string list" where
  "walk_paths w = concat (map (\<lambda>(root, dirs, files). map (join root) files) w)"

text \<open>The discovered paths whose extraction returns, and those whose extraction raises.\<close>

definition processed_paths :: "filesystem \<Rightarrow> string list \<Rightarrow> string list" where
  "processed_paths fs ps = filter (\<lambda>p. extract_raises fs p = None) ps"

definition failed_paths :: "filesystem \<Rightarrow> string list \<Rightarrow> string list" where
  "failed_paths fs ps = filter (\<lambda>p. extract_raises fs p \<noteq> None) ps"

text \<open>The paths among \<open>ps\<close> that lines 81 to 86 flag as large, for a threshold of \<open>t\<close> bytes.\<close>

definition large_paths :: "filesystem \<Rightarrow> int \<Rightarrow> string list \<Rightarrow> string list" where
  "large_paths fs t ps =
     filter (\<lambda>p. case getsize fs p of Inr sz \<Rightarrow> sz \<noteq> 0 \<and> int sz > t | Inl e \<Rightarrow> False) ps"

text \<open>Whether the base name of a path triggers the simulated failure (line 66).\<close>

definition simulated_failure :: "string \<Rightarrow> bool" where
  "simulated_failure path \<longleftrightarrow> str_in ''fail'' (lower (basename path))"

text \<open>The sum of the counts of the extension index, and the number of paths in the duplicate index.\<close>

definition ext_total :: "(string \<times> int) list \<Rightarrow> int" where
  "ext_total d = sum_list (map snd d)"

definition dup_total :: "(string \<times> string list) list \<Rightarrow> int" where
  "dup_total d = sum_list (map (\<lambda>(name, paths). int (length paths)) d)"

text \<open>
  The read-only operations, and a caller that runs any sequence of them on a scanner
  (\<open>main.py\<close> runs \<open>report_duplicates\<close>, \<open>report_summary\<close>, \<open>get_summary\<close>).
\<close>

datatype read_op = Get_summary | Report_summary | Report_duplicates

fun run_read_op :: "read_op \<Rightarrow> scanner \<Rightarrow> scanner" where
  "run_read_op Get_summary s = snd (get_summary s)"
| "run_read_op Report_summary s = report_summary s"
| "run_read_op Report_duplicates s = report_duplicates s"

text \<open>
  The extension as the specification words it: the text after the last \<open>.\<close> of the base
  name, and the sentinel when the base name has no \<open>.\<close>.
\<close>

definition text_after_last_dot :: "string \<Rightarrow> string" where
  "text_after_last_dot path =
     (let b = basename path
      in if CHR ''.'' \<in> set b then drop (nat (rfind b CHR ''.'' + 1)) b else ''<no-ext>'')"

text \<open>
  The shape \<open>YYYY-MM-DD HH:MM:SS\<close>: nineteen characters, decimal digits except for the
  separators at their places.
\<close>

definition ymd_hms_format :: "string \<Rightarrow> bool" where
  "ymd_hms_format t \<longleftrightarrow>
     length t = 19 \<and>
     t ! 4 = CHR ''-'' \<and> t ! 7 = CHR ''-'' \<and> t ! 10 = CHR '' '' \<and>
     t ! 13 = CHR '':'' \<and> t ! 16 = CHR '':'' \<and>
     (\<forall>i\<in>set [0, 1, 2, 3, 5, 6, 8, 9, 11, 12, 14, 15, 17, 18]. t ! i \<in> set ''0123456789'')"

text \<open>
  A small file system: the directory \<open>/data\<close> with six files and the subdirectory \<open>sub\<close>
  with one. \<open>5\<close> bytes each, except \<open>big.bin\<close> (one byte above 10 MB), \<open>exact.bin\<close>
  (10 MB) and \<open>empty.dat\<close> (no byte); \<open>gone.txt\<close> disappears before it is read.
\<close>

definition demo_time :: datetime where
  "demo_time =
     \<lparr> dt_year = 2024, dt_month = 3, dt_day = 9, dt_hour = 7, dt_minute = 5,
       dt_second = 1, dt_microsecond = 250000 \<rparr>"

definition demo_fs :: filesystem where
  "demo_fs =
     \<lparr> os_walk = (\<lambda>root.
         if root = ''/data'' then
           [(''/data'', [''sub''],
               [''a.txt'', ''big.bin'', ''fail_me.log'', ''empty.dat'', ''gone.txt'',
                ''exact.bin'']),
            (''/data/sub'', [], [''a.txt''])]
         else []),
       getsize = (\<lambda>p.
         if p = ''/data/big.bin'' then Inr 10485761
         else if p = ''/data/exact.bin'' then Inr 10485760
         else if p = ''/data/empty.dat'' then Inr 0
         else if p = ''/data/gone.txt'' then Inl (OSError ''No such file or directory'')
         else Inr 5),
       getmtime_local = (\<lambda>p. Inr demo_time) \<rparr>"

definition demo_scanner :: scanner where
  "demo_scanner = init ''/data'' 10 []"

text \<open>
  A second file system: one file, last modified on the first of January of the year 999.
\<close>

definition old_time :: datetime where
  "old_time =
     \<lparr> dt_year = 999, dt_month = 1, dt_day = 1, dt_hour = 0, dt_minute = 0,
       dt_second = 0, dt_microsecond = 0 \<rparr>"

definition old_fs :: filesystem where
  "old_fs =
     \<lparr> os_walk = (\<lambda>root. if root = ''/archive'' then [(''/archive'', [], [''old.txt''])] else []),
       getsize = (\<lambda>p. Inr 5),
       getmtime_local = (\<lambda>p. Inr old_time) \<rparr>"

section \<open>Facts about the library functions\<close>

lemma rfind_bounds: "- 1 \<le> rfind p c \<and> rfind p c < int (length p)"
  by (induction p) (auto simp: Let_def)

lemma rfind_neg_iff: "rfind p c < 0 \<longleftrightarrow> c \<notin> set p"
  by (induction p) (auto simp: Let_def)

lemma rfind_notin: "c \<notin> set p \<Longrightarrow> rfind p c = - 1"
  by (induction p) (auto simp: Let_def)

lemma rfind_append_Cons: "c \<notin> set ys \<Longrightarrow> rfind (xs @ c # ys) c = int (length xs)"
  by (induction xs) (auto simp: Let_def rfind_notin)

lemma rfind_split:
  "0 \<le> rfind p c \<Longrightarrow> \<exists>xs ys. p = xs @ c # ys \<and> c \<notin> set ys \<and> rfind p c = int (length xs)"
proof (induction p)
  case Nil
  then show ?case by simp
next
  case (Cons x p)
  show ?case
  proof (cases "0 \<le> rfind p c")
    case True
    with Cons.IH obtain xs ys where "p = xs @ c # ys" "c \<notin> set ys" "rfind p c = int (length xs)"
      by blast
    then have "x # p = (x # xs) @ c # ys \<and> c \<notin> set ys \<and> rfind (x # p) c = int (length (x # xs))"
      by (simp add: Let_def)
    then show ?thesis by blast
  next
    case False
    with Cons.prems have "x = c" by (auto simp: Let_def split: if_splits)
    moreover from False have "c \<notin> set p" using rfind_neg_iff [of p c] by simp
    ultimately have "x # p = [] @ c # p \<and> c \<notin> set p \<and> rfind (x # p) c = int (length ([]::string))"
      using False by (simp add: Let_def)
    then show ?thesis by blast
  qed
qed

lemma basename_no_sep: "CHR ''/'' \<notin> set (basename p)"
proof (cases "0 \<le> rfind p CHR ''/''")
  case True
  then obtain xs ys where "p = xs @ CHR ''/'' # ys" "CHR ''/'' \<notin> set ys"
    "rfind p CHR ''/'' = int (length xs)"
    using rfind_split by blast
  then show ?thesis by (simp add: basename_def Let_def nat_add_distrib)
next
  case False
  then have "rfind p CHR ''/'' = - 1" using rfind_bounds [of p "CHR ''/''"] by linarith
  moreover have "CHR ''/'' \<notin> set p" using False rfind_neg_iff [of p "CHR ''/''"] by simp
  ultimately show ?thesis by (simp add: basename_def)
qed

lemma basename_dir_file:
  "CHR ''/'' \<notin> set f \<Longrightarrow> basename (d @ CHR ''/'' # f) = f"
  by (simp add: basename_def rfind_append_Cons nat_add_distrib)

lemma basename_plain: "CHR ''/'' \<notin> set f \<Longrightarrow> basename f = f"
  by (simp add: basename_def rfind_notin)

lemma basename_join:
  assumes "CHR ''/'' \<notin> set f"
  shows "basename (join r f) = f"
proof -
  have nohd: "\<not> (f \<noteq> [] \<and> hd f = CHR ''/'')" using assms by (cases f) auto
  show ?thesis
  proof (cases "r = []")
    case True
    then show ?thesis using nohd assms by (simp add: join_def basename_plain)
  next
    case False
    show ?thesis
    proof (cases "last r = CHR ''/''")
      case True
      then have "r = butlast r @ [CHR ''/'']" using False by (metis append_butlast_last_id)
      then have "join r f = butlast r @ CHR ''/'' # f" using nohd True False
        by (simp add: join_def)
      then show ?thesis using assms by (simp add: basename_dir_file)
    next
      case notsep: False
      then have "join r f = r @ CHR ''/'' # f" using nohd False by (simp add: join_def)
      then show ?thesis using assms by (simp add: basename_dir_file)
    qed
  qed
qed

lemma splitext_loop_iff:
  "splitext_loop p i d \<longleftrightarrow> (\<exists>j. i \<le> j \<and> j < d \<and> take 1 (drop j p) \<noteq> ''.'')"
proof (induction p i d rule: splitext_loop.induct)
  case (1 p i d)
  show ?case
  proof (cases "i < d")
    case False
    then show ?thesis by (subst splitext_loop.simps) auto
  next
    case True
    show ?thesis
    proof (cases "take 1 (drop i p) \<noteq> ''.''")
      case True
      with \<open>i < d\<close> show ?thesis by (subst splitext_loop.simps) auto
    next
      case False
      then have "splitext_loop p i d = splitext_loop p (Suc i) d"
        using \<open>i < d\<close> by (subst splitext_loop.simps) simp
      also have "\<dots> = (\<exists>j. Suc i \<le> j \<and> j < d \<and> take 1 (drop j p) \<noteq> ''.'')"
        using "1.IH" True False by simp
      also have "\<dots> = (\<exists>j. i \<le> j \<and> j < d \<and> take 1 (drop j p) \<noteq> ''.'')"
        using False by (metis Suc_leD Suc_leI le_neq_implies_less)
      finally show ?thesis .
    qed
  qed
qed

lemma take1_drop: "j < length p \<Longrightarrow> take 1 (drop j p) = [p ! j]"
  by (simp add: Cons_nth_drop_Suc [symmetric])

lemma path_decomp:
  "\<exists>d. p = d @ basename p \<and> rfind p CHR ''/'' = int (length d) - 1"
proof -
  let ?d = "take (nat (rfind p CHR ''/'' + 1)) p"
  have "p = ?d @ basename p" by (simp add: basename_def)
  moreover have "int (length ?d) = rfind p CHR ''/'' + 1"
    using rfind_bounds [of p "CHR ''/''"] by (auto simp: min_def)
  ultimately show ?thesis by (intro exI [of _ ?d]) simp
qed

lemma splitext_ext_some:
  assumes b: "basename p = stem @ CHR ''.'' # e"
    and e: "CHR ''.'' \<notin> set e"
    and stem: "\<exists>c\<in>set stem. c \<noteq> CHR ''.''"
  shows "snd (splitext p) = CHR ''.'' # e"
proof -
  obtain d where d: "p = d @ basename p" "rfind p CHR ''/'' = int (length d) - 1"
    using path_decomp by blast
  have p: "p = (d @ stem) @ CHR ''.'' # e" using d(1) b by simp
  have dot: "rfind p CHR ''.'' = int (length d + length stem)"
    by (subst p) (simp only: rfind_append_Cons [OF e] length_append)
  from stem obtain k where k: "k < length stem" "stem ! k \<noteq> CHR ''.''"
    by (metis in_set_conv_nth)
  have "length d + k < length p" using k(1) by (subst p) simp
  then have "take 1 (drop (length d + k) p) = [p ! (length d + k)]" by (rule take1_drop)
  also have "p ! (length d + k) = stem ! k"
    using k(1) by (subst p) (simp add: nth_append)
  finally have "take 1 (drop (length d + k) p) = [stem ! k]" .
  then have "splitext_loop p (length d) (length d + length stem)"
    using k by (auto simp: splitext_loop_iff intro!: exI [of _ "length d + k"])
  moreover have "drop (length d + length stem) p = CHR ''.'' # e"
    by (subst p) simp
  ultimately show ?thesis
    using d(2) dot by (simp add: splitext_def Let_def nat_add_distrib)
qed

lemma splitext_ext_none_nodot:
  assumes "CHR ''.'' \<notin> set (basename p)"
  shows "snd (splitext p) = []"
proof -
  obtain d where d: "p = d @ basename p" "rfind p CHR ''/'' = int (length d) - 1"
    using path_decomp by blast
  show ?thesis
  proof (cases "0 \<le> rfind p CHR ''.''")
    case False
    then have "rfind p CHR ''.'' = - 1" using rfind_bounds [of p "CHR ''.''"] by linarith
    then show ?thesis using rfind_bounds [of p "CHR ''/''"] by (simp add: splitext_def Let_def)
  next
    case True
    then obtain xs ys where xy: "p = xs @ CHR ''.'' # ys" "CHR ''.'' \<notin> set ys"
      "rfind p CHR ''.'' = int (length xs)"
      using rfind_split by blast
    have "length xs < length d"
    proof (rule ccontr)
      assume "\<not> length xs < length d"
      then have "length d \<le> length xs" by simp
      moreover have "p ! length xs = CHR ''.''" by (subst xy(1)) simp
      moreover have "length xs < length p" by (subst xy(1)) simp
      ultimately have "basename p ! (length xs - length d) = CHR ''.''"
        "length xs - length d < length (basename p)"
        using d(1) by (metis nth_append not_less, metis length_append less_diff_conv2 add.commute)
      then show False using assms by (metis nth_mem)
    qed
    then show ?thesis using d(2) xy(3) by (simp add: splitext_def Let_def)
  qed
qed

lemma splitext_ext_none_dots:
  assumes b: "basename p = stem @ CHR ''.'' # e"
    and e: "CHR ''.'' \<notin> set e"
    and stem: "\<forall>c\<in>set stem. c = CHR ''.''"
  shows "snd (splitext p) = []"
proof -
  obtain d where d: "p = d @ basename p" "rfind p CHR ''/'' = int (length d) - 1"
    using path_decomp by blast
  have p: "p = (d @ stem) @ CHR ''.'' # e" using d(1) b by simp
  have dot: "rfind p CHR ''.'' = int (length d + length stem)"
    by (subst p) (simp only: rfind_append_Cons [OF e] length_append)
  have "\<not> splitext_loop p (length d) (length d + length stem)"
  proof
    assume "splitext_loop p (length d) (length d + length stem)"
    then obtain j where j: "length d \<le> j" "j < length d + length stem"
      "take 1 (drop j p) \<noteq> ''.''"
      by (auto simp: splitext_loop_iff)
    have "j < length p" using j(2) by (subst p) simp
    then have "take 1 (drop j p) = [p ! j]" by (rule take1_drop)
    also have "p ! j = stem ! (j - length d)"
    proof -
      have "j - length d < length stem" using j(1,2) by linarith
      then show ?thesis using j(1) by (subst p) (simp add: nth_append)
    qed
    finally have "take 1 (drop j p) = [stem ! (j - length d)]" .
    moreover have "stem ! (j - length d) = CHR ''.''"
      using stem j by (metis add.commute less_diff_conv2 nth_mem)
    ultimately show False using j(3) by simp
  qed
  then show ?thesis using d(2) dot by (simp add: splitext_def Let_def nat_add_distrib)
qed

section \<open>Facts about extraction and about the loop\<close>

lemma extract_raises_Some:
  "extract_raises fs p = Some e \<Longrightarrow> extract_metadata fs s p = (Inl e, s)"
  by (auto simp: extract_raises_def extract_metadata_def Let_def split: if_splits sum.splits)

lemma extract_raises_None:
  "extract_raises fs p = None \<Longrightarrow> \<exists>m. fst (extract_metadata fs s p) = Inr m"
  by (auto simp: extract_raises_def extract_metadata_def Let_def split: if_splits sum.splits)

lemma extract_Inl_raises:
  "fst (extract_metadata fs s p) = Inl e \<Longrightarrow> extract_raises fs p = Some e"
  by (auto simp: extract_raises_def extract_metadata_def Let_def split: if_splits sum.splits)

lemma extract_Inr_raises:
  "fst (extract_metadata fs s p) = Inr m \<Longrightarrow> extract_raises fs p = None"
  by (auto simp: extract_raises_def extract_metadata_def Let_def split: if_splits sum.splits)

lemma extract_frame:
  "total_discovered (snd (extract_metadata fs s p)) = total_discovered s"
  "total_processed (snd (extract_metadata fs s p)) = total_processed s"
  "total_failed (snd (extract_metadata fs s p)) = total_failed s"
  "root_path (snd (extract_metadata fs s p)) = root_path s"
  "large_file_threshold_bytes (snd (extract_metadata fs s p)) = large_file_threshold_bytes s"
  by (simp_all add: extract_metadata_def Let_def split: sum.splits)

lemma scan_file_scan_path: "scan_file fs root s f = scan_path fs s (join root f)"
  by (simp add: scan_file_def scan_path_def Let_def)

lemma scan_files_scan_paths:
  "scan_files fs root s files = scan_paths fs s (map (join root) files)"
  by (induction files arbitrary: s) (simp_all add: scan_file_scan_path split: prod.splits)

lemma scan_paths_append:
  "scan_paths fs s (ps @ qs) =
     (let (ys, s1) = scan_paths fs s ps; (zs, s2) = scan_paths fs s1 qs in (ys @ zs, s2))"
  by (induction ps arbitrary: s) (simp_all split: prod.splits)

lemma scan_walk_scan_paths: "scan_walk fs s w = scan_paths fs s (walk_paths w)"
proof (induction w arbitrary: s)
  case Nil
  then show ?case by (simp add: walk_paths_def)
next
  case (Cons t w)
  obtain root dirs files where t: "t = (root, dirs, files)" by (cases t)
  have "walk_paths (t # w) = map (join root) files @ walk_paths w"
    by (simp add: walk_paths_def t)
  then show ?case
    using Cons.IH by (simp add: t scan_files_scan_paths scan_paths_append split: prod.splits)
qed

lemma scan_path_fail:
  "extract_raises fs p = Some e \<Longrightarrow>
   scan_path fs s p =
     (None, s\<lparr>total_discovered := total_discovered s + 1,
              total_failed := total_failed s + 1,
              logged := logged s @ [Error_failed p e]\<rparr>)"
  by (simp add: scan_path_def Let_def extract_raises_Some)

lemma scan_path_ok:
  assumes "extract_raises fs p = None"
  shows "\<exists>m s2. extract_metadata fs (s\<lparr>total_discovered := total_discovered s + 1\<rparr>) p = (Inr m, s2) \<and>
           scan_path fs s p = (Some m, s2\<lparr>total_processed := total_processed s2 + 1\<rparr>)"
proof -
  let ?s1 = "s\<lparr>total_discovered := total_discovered s + 1\<rparr>"
  obtain m where "fst (extract_metadata fs ?s1 p) = Inr m"
    using extract_raises_None [OF assms] by blast
  then obtain s2 where e: "extract_metadata fs ?s1 p = (Inr m, s2)"
    by (metis prod.collapse)
  have "scan_path fs s p = (Some m, s2\<lparr>total_processed := total_processed s2 + 1\<rparr>)"
    by (simp add: scan_path_def Let_def e)
  with e show ?thesis by blast
qed

lemma scan_path_counters:
  "total_discovered (snd (scan_path fs s p)) = total_discovered s + 1 \<and>
   total_processed (snd (scan_path fs s p)) =
     total_processed s + (if extract_raises fs p = None then 1 else 0) \<and>
   total_failed (snd (scan_path fs s p)) =
     total_failed s + (if extract_raises fs p = None then 0 else 1) \<and>
   root_path (snd (scan_path fs s p)) = root_path s \<and>
   large_file_threshold_bytes (snd (scan_path fs s p)) = large_file_threshold_bytes s"
proof (cases "extract_raises fs p")
  case None
  let ?s1 = "s\<lparr>total_discovered := total_discovered s + 1\<rparr>"
  obtain m s2 where e: "extract_metadata fs ?s1 p = (Inr m, s2)"
    and sp: "scan_path fs s p = (Some m, s2\<lparr>total_processed := total_processed s2 + 1\<rparr>)"
    using scan_path_ok [OF None] by blast
  have s2: "s2 = snd (extract_metadata fs ?s1 p)" using e by simp
  have "total_discovered s2 = total_discovered s + 1" "total_processed s2 = total_processed s"
    "total_failed s2 = total_failed s" "root_path s2 = root_path s"
    "large_file_threshold_bytes s2 = large_file_threshold_bytes s"
    unfolding s2 by (simp_all add: extract_frame)
  then show ?thesis by (simp add: sp None)
next
  case (Some e)
  show ?thesis by (simp add: scan_path_fail [OF Some] Some)
qed

lemma scan_paths_counters:
  "total_discovered (snd (scan_paths fs s ps)) = total_discovered s + int (length ps)"
  "total_processed (snd (scan_paths fs s ps)) =
     total_processed s + int (length (processed_paths fs ps))"
  "total_failed (snd (scan_paths fs s ps)) = total_failed s + int (length (failed_paths fs ps))"
  "root_path (snd (scan_paths fs s ps)) = root_path s"
  "large_file_threshold_bytes (snd (scan_paths fs s ps)) = large_file_threshold_bytes s"
proof (induction ps arbitrary: s)
  case Nil
  {
    case 1 show ?case by simp
  next
    case 2 show ?case by (simp add: processed_paths_def)
  next
    case 3 show ?case by (simp add: failed_paths_def)
  next
    case 4 show ?case by simp
  next
    case 5 show ?case by simp
  }
next
  case (Cons p ps)
  have step: "snd (scan_paths fs s (p # ps)) = snd (scan_paths fs (snd (scan_path fs s p)) ps)" for s
    by (simp split: prod.splits)
  {
    case 1 show ?case by (subst step) (simp add: Cons.IH(1) scan_path_counters)
  next
    case 2 show ?case
      by (subst step) (simp add: Cons.IH(2) scan_path_counters processed_paths_def)
  next
    case 3 show ?case
      by (subst step) (simp add: Cons.IH(3) scan_path_counters failed_paths_def)
  next
    case 4 show ?case by (subst step) (simp add: Cons.IH(4) scan_path_counters)
  next
    case 5 show ?case by (subst step) (simp add: Cons.IH(5) scan_path_counters)
  }
qed

lemma length_processed_failed:
  "length (processed_paths fs ps) + length (failed_paths fs ps) = length ps"
  unfolding processed_paths_def failed_paths_def
  by (induction ps) auto

lemma scan_paths_consistent:
  "counters_consistent (snd (scan_paths fs s ps)) \<longleftrightarrow> counters_consistent s"
proof -
  have "int (length ps) = int (length (processed_paths fs ps)) + int (length (failed_paths fs ps))"
    using length_processed_failed [of fs ps] by (metis of_nat_add)
  then show ?thesis by (simp add: counters_consistent_def scan_paths_counters)
qed

lemma scan_final: "snd (snd (scan fs s)) = snd (scan_paths fs s (walk_paths (os_walk fs (root_path s))))"
  by (simp add: scan_def scan_walk_scan_paths split: prod.splits)

lemma scan_raised: "fst (snd (scan fs s)) = verify_counters (snd (snd (scan fs s)))"
  by (simp add: scan_def split: prod.splits)

lemma scan_yielded: "fst (scan fs s) = fst (scan_paths fs s (walk_paths (os_walk fs (root_path s))))"
  by (simp add: scan_def scan_walk_scan_paths split: prod.splits)

lemma verify_counters_iff: "verify_counters s = Inr () \<longleftrightarrow> counters_consistent s"
  by (simp add: verify_counters_def counters_consistent_def)

lemma scan_consistent: "counters_consistent (snd (snd (scan fs s))) \<longleftrightarrow> counters_consistent s"
  by (simp add: scan_final scan_paths_consistent)

lemma extract_raises_NoneD:
  assumes "extract_raises fs p = None"
  shows "\<not> str_in ''fail'' (lower (basename p)) \<and>
         (\<exists>sz dt. getsize fs p = Inr sz \<and> getmtime_local fs p = Inr dt)"
  using assms by (auto simp: extract_raises_def split: if_splits sum.splits)

lemma extract_success:
  assumes "\<not> str_in ''fail'' (lower (basename p))"
    and "getsize fs p = Inr sz" and "getmtime_local fs p = Inr dt"
  shows "extract_metadata fs s p =
     (Inr \<lparr> meta_path = p, meta_size = sz, meta_extension = extension_of p,
            meta_modified = strftime dt \<rparr>,
      s\<lparr>extension_count := dict_incr (extension_count s) (extension_of p),
        logged := logged s @ size_warning (large_file_threshold_bytes s) p sz,
        large_files := large_files s @ large_entry (large_file_threshold_bytes s) p sz,
        duplicates := dict_append (duplicates s) (basename p) p\<rparr>)"
  using assms
  by (simp add: extract_metadata_def Let_def extension_of_def size_warning_def large_entry_def)

lemma scan_path_success:
  assumes "\<not> str_in ''fail'' (lower (basename p))"
    and "getsize fs p = Inr sz" and "getmtime_local fs p = Inr dt"
  shows "scan_path fs s p =
     (Some \<lparr> meta_path = p, meta_size = sz, meta_extension = extension_of p,
             meta_modified = strftime dt \<rparr>,
      s\<lparr>total_discovered := total_discovered s + 1,
        total_processed := total_processed s + 1,
        extension_count := dict_incr (extension_count s) (extension_of p),
        logged := logged s @ size_warning (large_file_threshold_bytes s) p sz,
        large_files := large_files s @ large_entry (large_file_threshold_bytes s) p sz,
        duplicates := dict_append (duplicates s) (basename p) p\<rparr>)"
  by (simp add: scan_path_def Let_def extract_success [OF assms])

lemma scan_paths_snd_Cons:
  "snd (scan_paths fs s (p # ps)) = snd (scan_paths fs (snd (scan_path fs s p)) ps)"
  by (simp split: prod.splits)

lemma scan_paths_fst_Cons:
  "fst (scan_paths fs s (p # ps)) =
     fst (scan_path fs s p) # fst (scan_paths fs (snd (scan_path fs s p)) ps)"
  by (simp split: prod.splits)

lemma scan_paths_invariant:
  assumes "\<And>s p. P s \<Longrightarrow> P (snd (scan_path fs s p))" and "P s"
  shows "P (snd (scan_paths fs s ps))"
  using assms(2)
proof (induction ps arbitrary: s)
  case Nil
  then show ?case by simp
next
  case (Cons p ps)
  show ?case unfolding scan_paths_snd_Cons by (rule Cons.IH) (rule assms(1) [OF Cons.prems])
qed

lemma scan_path_yield_None:
  "fst (scan_path fs s p) = None \<longleftrightarrow> extract_raises fs p \<noteq> None"
proof (cases "extract_raises fs p")
  case None
  then show ?thesis using scan_path_ok [OF None, of s] by auto
next
  case (Some e)
  then show ?thesis by (simp add: scan_path_fail [OF Some])
qed

lemma scan_paths_yields:
  "map (\<lambda>y. y = None) (fst (scan_paths fs s ps)) = map (\<lambda>p. extract_raises fs p \<noteq> None) ps"
proof (induction ps arbitrary: s)
  case Nil
  then show ?case by simp
next
  case (Cons p ps)
  show ?case unfolding scan_paths_fst_Cons by (simp add: scan_path_yield_None Cons.IH)
qed

lemma scan_path_logged_prefix: "prefix (logged s) (logged (snd (scan_path fs s p)))"
proof (cases "extract_raises fs p")
  case None
  then obtain sz dt where "\<not> str_in ''fail'' (lower (basename p))"
    "getsize fs p = Inr sz" "getmtime_local fs p = Inr dt"
    using extract_raises_NoneD by blast
  then show ?thesis by (simp add: scan_path_success)
next
  case (Some e)
  then show ?thesis by (simp add: scan_path_fail [OF Some])
qed

lemma scan_paths_logged_prefix: "prefix (logged s) (logged (snd (scan_paths fs s ps)))"
proof (induction ps arbitrary: s)
  case Nil
  then show ?case by simp
next
  case (Cons p ps)
  show ?case unfolding scan_paths_snd_Cons
    using scan_path_logged_prefix Cons.IH by (rule prefix_order.trans)
qed

lemma scan_paths_failed_logged:
  assumes "p \<in> set ps" and "extract_raises fs p = Some e"
  shows "Error_failed p e \<in> set (logged (snd (scan_paths fs s ps)))"
  using assms(1)
proof (induction ps arbitrary: s)
  case Nil
  then show ?case by simp
next
  case (Cons q ps)
  show ?case
  proof (cases "p \<in> set ps")
    case True
    then show ?thesis unfolding scan_paths_snd_Cons by (rule Cons.IH)
  next
    case False
    with Cons.prems have "q = p" by simp
    then have "Error_failed p e \<in> set (logged (snd (scan_path fs s q)))"
      by (simp add: scan_path_fail [OF assms(2)])
    moreover have "set (logged (snd (scan_path fs s q))) \<subseteq>
        set (logged (snd (scan_paths fs (snd (scan_path fs s q)) ps)))"
      using scan_paths_logged_prefix by (rule set_mono_prefix)
    ultimately show ?thesis unfolding scan_paths_snd_Cons by blast
  qed
qed

lemma scan_path_aggregates_fail:
  assumes "extract_raises fs p = Some e"
  shows "extension_count (snd (scan_path fs s p)) = extension_count s"
    and "large_files (snd (scan_path fs s p)) = large_files s"
    and "duplicates (snd (scan_path fs s p)) = duplicates s"
  by (simp_all add: scan_path_fail [OF assms])

lemma scan_path_aggregates_ok:
  assumes "extract_raises fs p = None"
  shows "extension_count (snd (scan_path fs s p)) = dict_incr (extension_count s) (extension_of p)"
    and "large_files (snd (scan_path fs s p)) =
           large_files s @ large_paths fs (large_file_threshold_bytes s) [p]"
    and "duplicates (snd (scan_path fs s p)) = dict_append (duplicates s) (basename p) p"
proof -
  obtain sz dt where ok: "\<not> str_in ''fail'' (lower (basename p))"
    "getsize fs p = Inr sz" "getmtime_local fs p = Inr dt"
    using extract_raises_NoneD [OF assms] by blast
  note sp = scan_path_success [OF ok, of s]
  show "extension_count (snd (scan_path fs s p)) = dict_incr (extension_count s) (extension_of p)"
    by (simp add: sp)
  show "large_files (snd (scan_path fs s p)) =
           large_files s @ large_paths fs (large_file_threshold_bytes s) [p]"
    by (simp add: sp large_paths_def large_entry_def ok(2))
  show "duplicates (snd (scan_path fs s p)) = dict_append (duplicates s) (basename p) p"
    by (simp add: sp)
qed

lemma scan_path_threshold:
  "large_file_threshold_bytes (snd (scan_path fs s p)) = large_file_threshold_bytes s"
  using scan_path_counters [of fs s p] by simp

lemma scan_paths_aggregates:
  "extension_count (snd (scan_paths fs s ps)) =
     fold (\<lambda>p d. dict_incr d (extension_of p)) (processed_paths fs ps) (extension_count s) \<and>
   large_files (snd (scan_paths fs s ps)) =
     large_files s @ large_paths fs (large_file_threshold_bytes s) (processed_paths fs ps) \<and>
   duplicates (snd (scan_paths fs s ps)) =
     fold (\<lambda>p d. dict_append d (basename p) p) (processed_paths fs ps) (duplicates s)"
proof (induction ps arbitrary: s)
  case Nil
  show ?case by (simp add: processed_paths_def large_paths_def)
next
  case (Cons p ps)
  note IH = Cons.IH [of "snd (scan_path fs s p)"]
  show ?case
  proof (cases "extract_raises fs p")
    case None
    have pp: "processed_paths fs (p # ps) = p # processed_paths fs ps"
      by (simp add: processed_paths_def None)
    have lp: "large_paths fs (large_file_threshold_bytes s) (p # processed_paths fs ps) =
        large_paths fs (large_file_threshold_bytes s) [p] @
        large_paths fs (large_file_threshold_bytes s) (processed_paths fs ps)"
      by (simp add: large_paths_def)
    show ?thesis
      unfolding scan_paths_snd_Cons pp lp
      using IH by (simp add: scan_path_aggregates_ok [OF None] scan_path_threshold)
  next
    case (Some e)
    have pp: "processed_paths fs (p # ps) = processed_paths fs ps"
      by (simp add: processed_paths_def Some)
    show ?thesis
      unfolding scan_paths_snd_Cons pp
      using IH by (simp add: scan_path_aggregates_fail [OF Some] scan_path_threshold)
  qed
qed

lemma processed_not_simulated:
  "p \<in> set (processed_paths fs ps) \<Longrightarrow> \<not> simulated_failure p"
  by (auto simp: processed_paths_def simulated_failure_def dest: extract_raises_NoneD)

lemma large_paths_subset: "set (large_paths fs t ps) \<subseteq> set ps"
  by (auto simp: large_paths_def)

lemma dict_append_fold_keys:
  "fst ` set (fold (\<lambda>p d. dict_append d (f p) p) ps d) = fst ` set d \<union> f ` set ps"
  by (induction ps arbitrary: d) (auto simp: dict_append_def dom_update)

lemma map_of_dict_append:
  "map_of (dict_append d k v) k' =
     (if k' = k then Some ((case map_of d k of None \<Rightarrow> [] | Some vs \<Rightarrow> vs) @ [v])
      else map_of d k')"
  by (simp add: dict_append_def update_conv')

lemma map_of_dict_append_fold:
  "map_of (fold (\<lambda>p d. dict_append d (f p) p) ps d) k =
     (case map_of d k of
        None \<Rightarrow> (if filter (\<lambda>p. f p = k) ps = [] then None else Some (filter (\<lambda>p. f p = k) ps))
      | Some vs \<Rightarrow> Some (vs @ filter (\<lambda>p. f p = k) ps))"
proof (induction ps arbitrary: d)
  case Nil
  then show ?case by (simp split: option.splits)
next
  case (Cons p ps)
  show ?case
    by (simp add: Cons.IH map_of_dict_append split: option.splits)
qed

lemma map_of_dict_incr:
  "map_of (dict_incr d k) k' =
     (if k' = k then Some ((case map_of d k of None \<Rightarrow> 0 | Some c \<Rightarrow> c) + 1)
      else map_of d k')"
  by (simp add: dict_incr_def update_conv')

lemma sum_list_update:
  fixes d :: "('k \<times> int) list"
  shows "sum_list (map snd (AList.update k v d)) =
     sum_list (map snd d) + v - (case map_of d k of None \<Rightarrow> 0 | Some c \<Rightarrow> c)"
  by (induction d) auto

lemma ext_total_dict_incr: "ext_total (dict_incr d k) = ext_total d + 1"
  by (simp add: ext_total_def dict_incr_def sum_list_update)

lemma ext_total_fold:
  "ext_total (fold (\<lambda>p d. dict_incr d (f p)) ps d) = ext_total d + int (length ps)"
  by (induction ps arbitrary: d) (simp_all add: ext_total_dict_incr)

lemma sum_list_length_update:
  "sum_list (map (\<lambda>(name, paths). int (length paths)) (AList.update k v d)) =
     sum_list (map (\<lambda>(name, paths). int (length paths)) d) + int (length v) -
       (case map_of d k of None \<Rightarrow> 0 | Some vs \<Rightarrow> int (length vs))"
  by (induction d) auto

lemma dup_total_dict_append: "dup_total (dict_append d k v) = dup_total d + 1"
  by (simp add: dup_total_def dict_append_def sum_list_length_update split: option.splits)

lemma dup_total_fold:
  "dup_total (fold (\<lambda>p d. dict_append d (f p) p) ps d) = dup_total d + int (length ps)"
  by (induction ps arbitrary: d) (simp_all add: dup_total_dict_append)

lemma set_update_subset: "set (AList.update k v d) \<subseteq> insert (k, v) (set d)"
  by (induction d) auto

lemma dict_append_clean:
  assumes d: "\<forall>(name, paths)\<in>set d. P name \<and> (\<forall>p\<in>set paths. Q p)"
    and k: "P k" and v: "Q v"
  shows "\<forall>(name, paths)\<in>set (dict_append d k v). P name \<and> (\<forall>p\<in>set paths. Q p)"
proof -
  let ?old = "case map_of d k of None \<Rightarrow> [] | Some vs \<Rightarrow> vs"
  have old: "\<forall>p\<in>set ?old. Q p"
  proof (cases "map_of d k")
    case None
    then show ?thesis by simp
  next
    case (Some vs)
    then have "(k, vs) \<in> set d" by (rule map_of_SomeD)
    with d have "\<forall>p\<in>set vs. Q p" by blast
    with Some show ?thesis by simp
  qed
  have sub: "set (dict_append d k v) \<subseteq> insert (k, ?old @ [v]) (set d)"
    unfolding dict_append_def by (rule set_update_subset)
  have "P name \<and> (\<forall>p\<in>set paths. Q p)" if "(name, paths) \<in> set (dict_append d k v)"
    for name paths
  proof -
    from that sub have "(name, paths) = (k, ?old @ [v]) \<or> (name, paths) \<in> set d" by blast
    then show ?thesis
    proof
      assume "(name, paths) = (k, ?old @ [v])"
      then have "name = k" "paths = ?old @ [v]" by simp_all
      with k v old show ?thesis by simp
    next
      assume "(name, paths) \<in> set d"
      with d show ?thesis by blast
    qed
  qed
  then show ?thesis by blast
qed

lemma dict_append_fold_clean:
  assumes "\<forall>(name, paths)\<in>set d. P name \<and> (\<forall>p\<in>set paths. Q p)"
    and "\<forall>p\<in>set ps. P (f p) \<and> Q p"
  shows "\<forall>(name, paths)\<in>set (fold (\<lambda>p d. dict_append d (f p) p) ps d).
           P name \<and> (\<forall>p\<in>set paths. Q p)"
  using assms
proof (induction ps arbitrary: d)
  case Nil
  then show ?case by simp
next
  case (Cons q ps)
  have q: "P (f q)" "Q q" using Cons.prems(2) by simp_all
  have step: "\<forall>(name, paths)\<in>set (dict_append d (f q) q). P name \<and> (\<forall>p\<in>set paths. Q p)"
    using Cons.prems(1) q by (rule dict_append_clean)
  have rest: "\<forall>p\<in>set ps. P (f p) \<and> Q p" using Cons.prems(2) by simp
  have "fold (\<lambda>p d. dict_append d (f p) p) (q # ps) d =
        fold (\<lambda>p d. dict_append d (f p) p) ps (dict_append d (f q) q)" by simp
  then show ?case using Cons.IH [OF step rest] by (simp only:)
qed

lemma scan_aggregates:
  "extension_count (snd (snd (scan fs s))) =
     fold (\<lambda>p d. dict_incr d (extension_of p))
       (processed_paths fs (walk_paths (os_walk fs (root_path s)))) (extension_count s)"
  "large_files (snd (snd (scan fs s))) =
     large_files s @ large_paths fs (large_file_threshold_bytes s)
       (processed_paths fs (walk_paths (os_walk fs (root_path s))))"
  "duplicates (snd (snd (scan fs s))) =
     fold (\<lambda>p d. dict_append d (basename p) p)
       (processed_paths fs (walk_paths (os_walk fs (root_path s)))) (duplicates s)"
  using scan_paths_aggregates [of fs s "walk_paths (os_walk fs (root_path s))"]
  by (simp_all add: scan_final)

lemma scan_counters:
  "total_discovered (snd (snd (scan fs s))) =
     total_discovered s + int (length (walk_paths (os_walk fs (root_path s))))"
  "total_processed (snd (snd (scan fs s))) =
     total_processed s + int (length (processed_paths fs (walk_paths (os_walk fs (root_path s)))))"
  "total_failed (snd (snd (scan fs s))) =
     total_failed s + int (length (failed_paths fs (walk_paths (os_walk fs (root_path s)))))"
  "root_path (snd (snd (scan fs s))) = root_path s"
  "large_file_threshold_bytes (snd (snd (scan fs s))) = large_file_threshold_bytes s"
  by (simp_all add: scan_final scan_paths_counters)

lemma init_fields:
  "root_path (init root mb lg) = root"
  "large_file_threshold_bytes (init root mb lg) = mb * 1024 * 1024"
  "total_discovered (init root mb lg) = 0"
  "total_processed (init root mb lg) = 0"
  "total_failed (init root mb lg) = 0"
  "extension_count (init root mb lg) = []"
  "large_files (init root mb lg) = []"
  "duplicates (init root mb lg) = []"
  "logged (init root mb lg) = lg"
  by (simp_all add: init_def)

lemma length_large_paths: "length (large_paths fs t ps) \<le> length ps"
  by (simp add: large_paths_def)

lemma read_op_frame:
  "root_path (run_read_op op s) = root_path s \<and>
   large_file_threshold_bytes (run_read_op op s) = large_file_threshold_bytes s \<and>
   total_discovered (run_read_op op s) = total_discovered s \<and>
   total_processed (run_read_op op s) = total_processed s \<and>
   total_failed (run_read_op op s) = total_failed s \<and>
   extension_count (run_read_op op s) = extension_count s \<and>
   large_files (run_read_op op s) = large_files s \<and>
   duplicates (run_read_op op s) = duplicates s"
  by (cases op)
    (simp_all add: get_summary_def report_summary_def report_duplicates_def split: sum.splits)

lemma read_ops_frame:
  "root_path (fold run_read_op ops s) = root_path s \<and>
   large_file_threshold_bytes (fold run_read_op ops s) = large_file_threshold_bytes s \<and>
   total_discovered (fold run_read_op ops s) = total_discovered s \<and>
   total_processed (fold run_read_op ops s) = total_processed s \<and>
   total_failed (fold run_read_op ops s) = total_failed s \<and>
   extension_count (fold run_read_op ops s) = extension_count s \<and>
   large_files (fold run_read_op ops s) = large_files s \<and>
   duplicates (fold run_read_op ops s) = duplicates s"
proof (induction ops arbitrary: s)
  case Nil
  show ?case by simp
next
  case (Cons op ops)
  show ?case using Cons.IH [of "run_read_op op s"] read_op_frame [of op s] by simp
qed

lemma get_summary_depends:
  assumes "total_discovered t = total_discovered s" "total_processed t = total_processed s"
    "total_failed t = total_failed s" "extension_count t = extension_count s"
    "large_files t = large_files s" "duplicates t = duplicates s"
  shows "fst (get_summary t) = fst (get_summary s)"
  using assms by (simp add: get_summary_def verify_counters_def)

lemma dict_append_fold_distinct:
  "distinct (map fst d) \<Longrightarrow> distinct (map fst (fold (\<lambda>p d. dict_append d (f p) p) ps d))"
  by (induction ps arbitrary: d) (simp_all add: dict_append_def distinct_update)

lemma report_duplicates_logged:
  "Info_duplicate name paths \<in> set (logged (report_duplicates s)) \<longleftrightarrow>
     Info_duplicate name paths \<in> set (logged s) \<or>
     ((name, paths) \<in> set (duplicates s) \<and> 1 < length paths)"
  by (auto simp: report_duplicates_def)

lemma concat_map_sublist:
  assumes "x \<in> set xs"
  shows "sublist (f x) (concat (map f xs))"
proof -
  from assms obtain ys zs where "xs = ys @ x # zs" by (meson split_list)
  then have "concat (map f xs) = concat (map f ys) @ f x @ concat (map f zs)" by simp
  then show ?thesis by (metis sublist_appendI)
qed

lemma write_report_group:
  assumes "(name, paths) \<in> set (sum_duplicates summ)" and "1 < length paths"
  shows "sublist ([''### `'' @ name @ ''`\<newline>''] @ map (\<lambda>p. ''- `'' @ p @ ''`\<newline>'') paths @
           [''\<newline>'']) (write_report_duplicates summ)"
proof -
  let ?dups = "filter (\<lambda>(name, paths). length paths > 1) (sum_duplicates summ)"
  let ?render = "\<lambda>(name, paths). [''### `'' @ name @ ''`\<newline>''] @
                     map (\<lambda>p. ''- `'' @ p @ ''`\<newline>'') paths @ [''\<newline>'']"
  have mem: "(name, paths) \<in> set ?dups" using assms by simp
  then have ne: "?dups \<noteq> []" by (metis empty_iff empty_set)
  have "sublist (?render (name, paths)) (concat (map ?render ?dups))"
    using mem by (rule concat_map_sublist)
  moreover have "write_report_duplicates summ = concat (map ?render ?dups)"
    using ne by (simp add: write_report_duplicates_def Let_def)
  ultimately show ?thesis by simp
qed

lemma write_report_heading:
  assumes "''### `'' @ name @ ''`\<newline>'' \<in> set (write_report_duplicates summ)"
  shows "\<exists>paths. (name, paths) \<in> set (sum_duplicates summ) \<and> 1 < length paths"
proof -
  let ?dups = "filter (\<lambda>(name, paths). length paths > 1) (sum_duplicates summ)"
  let ?render = "\<lambda>(name, paths). [''### `'' @ name @ ''`\<newline>''] @
                     map (\<lambda>p. ''- `'' @ p @ ''`\<newline>'') paths @ [''\<newline>'']"
  have ne: "?dups \<noteq> []"
  proof
    assume "?dups = []"
    then have "write_report_duplicates summ = [''_No duplicates found._\<newline>'']"
      by (simp add: write_report_duplicates_def Let_def)
    with assms show False by simp
  qed
  then have "write_report_duplicates summ = concat (map ?render ?dups)"
    by (simp add: write_report_duplicates_def Let_def)
  with assms obtain n ps where g: "(n, ps) \<in> set ?dups"
    and m: "''### `'' @ name @ ''`\<newline>'' \<in> set (?render (n, ps))"
    by auto
  from m have "name = n" by auto
  with g show ?thesis by auto
qed

lemma digit_in_digits: "digit n \<in> set ''0123456789''"
proof -
  have "n mod 10 < length ''0123456789''" by simp
  then show ?thesis unfolding digit_def by (rule nth_mem)
qed

lemma digit_inj:
  assumes h: "digit a = digit b"
  shows "a mod 10 = b mod 10"
proof -
  have d: "distinct ''0123456789''" by simp
  have la: "a mod 10 < length ''0123456789''" and lb: "b mod 10 < length ''0123456789''"
    by simp_all
  have "''0123456789'' ! (a mod 10) = ''0123456789'' ! (b mod 10)"
    using h by (simp only: digit_def)
  then show ?thesis using nth_eq_iff_index_eq [OF d la lb] by blast
qed

lemma decimal_small: "n < 10 \<Longrightarrow> decimal n = [digit n]"
  by (subst decimal.simps) simp

lemma decimal_large: "10 \<le> n \<Longrightarrow> decimal n = decimal (n div 10) @ [digit n]"
  by (subst decimal.simps) simp

lemma decimal_nonempty: "decimal n \<noteq> []"
  by (cases "n < 10") (simp_all add: decimal_small decimal_large)

lemma decimal_digits: "set (decimal n) \<subseteq> set ''0123456789''"
proof (induction n rule: decimal.induct)
  case (1 n)
  show ?case
  proof (cases "n < 10")
    case True
    then show ?thesis using digit_in_digits [of n] by (simp only: decimal_small) simp
  next
    case False
    then have "decimal n = decimal (n div 10) @ [digit n]" by (simp add: decimal_large)
    then show ?thesis using "1.IH" [OF False] digit_in_digits [of n] by simp
  qed
qed

lemma decimal_no_dash: "CHR ''-'' \<notin> set (decimal n)"
  using decimal_digits [of n] by auto

lemma decimal_four:
  assumes "1000 \<le> n" "n \<le> 9999"
  shows "decimal n = [digit (n div 1000), digit (n div 100), digit (n div 10), digit n]"
proof -
  have d2: "n div 10 div 10 = n div 100" using div_mult2_eq [of n 10 10] by simp
  have d3: "n div 100 div 10 = n div 1000" using div_mult2_eq [of n 100 10] by simp
  have a: "decimal n = decimal (n div 10) @ [digit n]"
    using assms by (intro decimal_large) simp
  have b: "decimal (n div 10) = decimal (n div 100) @ [digit (n div 10)]"
    using assms decimal_large [of "n div 10"] by (simp add: d2)
  have c: "decimal (n div 100) = decimal (n div 1000) @ [digit (n div 100)]"
    using assms decimal_large [of "n div 100"] by (simp add: d3)
  have d: "decimal (n div 1000) = [digit (n div 1000)]"
    using assms by (intro decimal_small) simp
  show ?thesis by (simp add: a b c d)
qed

lemma decimal_inj: "decimal a = decimal b \<Longrightarrow> a = b"
proof (induction a arbitrary: b rule: decimal.induct)
  case (1 a)
  show ?case
  proof (cases "a < 10")
    case a: True
    show ?thesis
    proof (cases "b < 10")
      case True
      with a "1.prems" have "digit a = digit b" by (simp add: decimal_small)
      then have "a mod 10 = b mod 10" by (rule digit_inj)
      with a True show ?thesis by simp
    next
      case False
      then have "decimal b = decimal (b div 10) @ [digit b]" by (simp add: decimal_large)
      with a "1.prems" have "[digit a] = decimal (b div 10) @ [digit b]"
        by (simp add: decimal_small)
      then have "decimal (b div 10) = []" by simp
      then show ?thesis by (simp add: decimal_nonempty)
    qed
  next
    case a: False
    then have ea: "decimal a = decimal (a div 10) @ [digit a]" by (simp add: decimal_large)
    show ?thesis
    proof (cases "b < 10")
      case True
      with "1.prems" ea have "decimal (a div 10) @ [digit a] = [digit b]"
        by (simp add: decimal_small)
      then have "decimal (a div 10) = []" by simp
      then show ?thesis by (simp add: decimal_nonempty)
    next
      case False
      then have "decimal b = decimal (b div 10) @ [digit b]" by (simp add: decimal_large)
      with "1.prems" ea have e: "decimal (a div 10) = decimal (b div 10)" "digit a = digit b"
        by simp_all
      have "a div 10 = b div 10" using a e(1) by (rule "1.IH")
      moreover have "a mod 10 = b mod 10" using e(2) by (rule digit_inj)
      ultimately have "10 * (a div 10) + a mod 10 = 10 * (b div 10) + b mod 10" by simp
      then show ?thesis by simp
    qed
  qed
qed

lemma two_digits:
  fixes a b :: nat
  assumes "a div 10 mod 10 = b div 10 mod 10" "a mod 10 = b mod 10" "a < 100" "b < 100"
  shows "a = b"
proof -
  have "a div 10 < 10" "b div 10 < 10" using assms(3,4) by simp_all
  then have "a div 10 = b div 10" using assms(1) by simp
  then have "10 * (a div 10) + a mod 10 = 10 * (b div 10) + b mod 10" using assms(2) by simp
  then show ?thesis by simp
qed

lemma pad2_inj:
  assumes "pad2 a = pad2 b" "a < 100" "b < 100"
  shows "a = b"
proof -
  from assms(1) have d: "digit (a div 10) = digit (b div 10)" "digit a = digit b"
    by (simp_all add: pad2_def)
  show ?thesis
    using digit_inj [OF d(1)] digit_inj [OF d(2)] assms(2,3) by (rule two_digits)
qed

lemma pad2_length: "length (pad2 n) = 2"
  by (simp add: pad2_def)

lemma strftime_format:
  assumes "1000 \<le> dt_year d" "dt_year d \<le> 9999"
  shows "ymd_hms_format (strftime d)"
  using digit_in_digits
  by (simp add: ymd_hms_format_def strftime_def pad2_def decimal_four [OF assms])

lemma strftime_seconds: "strftime (d\<lparr>dt_microsecond := u\<rparr>) = strftime d"
  by (simp add: strftime_def)

lemma split_at_first:
  "x \<notin> set xs \<Longrightarrow> x \<notin> set xs' \<Longrightarrow> xs @ x # ys = xs' @ x # ys' \<Longrightarrow>
   xs = xs' \<and> ys = ys'"
proof (induction xs arbitrary: xs')
  case Nil
  then show ?case by (cases xs') auto
next
  case (Cons a xs)
  then show ?case by (cases xs') auto
qed

lemma strftime_inj:
  assumes "strftime d1 = strftime d2" "valid_datetime d1" "valid_datetime d2"
  shows "dt_year d1 = dt_year d2 \<and> dt_month d1 = dt_month d2 \<and> dt_day d1 = dt_day d2 \<and>
         dt_hour d1 = dt_hour d2 \<and> dt_minute d1 = dt_minute d2 \<and> dt_second d1 = dt_second d2"
proof -
  let ?r1 = "pad2 (dt_month d1) @ ''-'' @ pad2 (dt_day d1) @ '' '' @
     pad2 (dt_hour d1) @ '':'' @ pad2 (dt_minute d1) @ '':'' @ pad2 (dt_second d1)"
  let ?r2 = "pad2 (dt_month d2) @ ''-'' @ pad2 (dt_day d2) @ '' '' @
     pad2 (dt_hour d2) @ '':'' @ pad2 (dt_minute d2) @ '':'' @ pad2 (dt_second d2)"
  from assms(1) have "decimal (dt_year d1) @ CHR ''-'' # ?r1 = decimal (dt_year d2) @ CHR ''-'' # ?r2"
    by (simp add: strftime_def)
  then have yr: "decimal (dt_year d1) = decimal (dt_year d2) \<and> ?r1 = ?r2"
    by (rule split_at_first [OF decimal_no_dash decimal_no_dash])
  then have y: "decimal (dt_year d1) = decimal (dt_year d2)" and r: "?r1 = ?r2"
    by simp_all
  from r have e: "pad2 (dt_month d1) = pad2 (dt_month d2)" "pad2 (dt_day d1) = pad2 (dt_day d2)"
    "pad2 (dt_hour d1) = pad2 (dt_hour d2)" "pad2 (dt_minute d1) = pad2 (dt_minute d2)"
    "pad2 (dt_second d1) = pad2 (dt_second d2)"
    by (simp_all add: pad2_length)
  from assms(2,3) have b:
    "dt_month d1 < 100" "dt_month d2 < 100" "dt_day d1 < 100" "dt_day d2 < 100"
    "dt_hour d1 < 100" "dt_hour d2 < 100" "dt_minute d1 < 100" "dt_minute d2 < 100"
    "dt_second d1 < 100" "dt_second d2 < 100"
    by (simp_all add: valid_datetime_def)
  show ?thesis
    using decimal_inj [OF y] pad2_inj [OF e(1) b(1,2)] pad2_inj [OF e(2) b(3,4)]
      pad2_inj [OF e(3) b(5,6)] pad2_inj [OF e(4) b(7,8)] pad2_inj [OF e(5) b(9,10)]
    by simp
qed

text \<open>Unfolding the small file system and the string functions on concrete paths.\<close>

lemmas demo_eval = demo_fs_def demo_scanner_def init_def basename_def join_def Let_def
  str_in_def lower_def lower_char_def sublist_code simulated_failure_def

section \<open>Properties of the scanner\<close>

text \<open>
  C1. A fresh scanner satisfies the counter invariant. A scan that starts from a scanner
  satisfying \<open>total_discovered = total_processed + total_failed\<close> ends normally, leaves the
  invariant true, and \<open>get_summary\<close> then returns a summary. The invariant is tested after
  the traversal and at every summary retrieval: where it is violated, \<open>scan\<close> ends with a
  \<open>RuntimeError\<close> after its last item, \<open>get_summary\<close> raises a \<open>RuntimeError\<close> and leaves the
  counters as they are. Hence every scan that ends normally satisfies the invariant.
\<close>

theorem counter_invariant_checked:
  "counters_consistent (init root mb lg) \<and>
   (counters_consistent s \<longrightarrow>
      fst (snd (scan fs s)) = Inr () \<and> counters_consistent (snd (snd (scan fs s))) \<and>
      (\<exists>summ. get_summary s = (Inr summ, s))) \<and>
   (\<not> counters_consistent s \<longrightarrow>
      fst (snd (scan fs s)) =
        Inl (RuntimeError (Counter_mismatch (total_discovered (snd (snd (scan fs s))))
               (total_processed (snd (snd (scan fs s)))) (total_failed (snd (snd (scan fs s)))))) \<and>
      get_summary s =
        (Inl (RuntimeError (Counter_mismatch (total_discovered s) (total_processed s)
                (total_failed s))), s)) \<and>
   (fst (snd (scan fs s)) = Inr () \<longrightarrow> counters_consistent (snd (snd (scan fs s))))"
proof -
  have a: "counters_consistent (init root mb lg)"
    by (simp add: counters_consistent_def init_def)
  have b: "fst (snd (scan fs s)) = Inr () \<and> counters_consistent (snd (snd (scan fs s))) \<and>
      (\<exists>summ. get_summary s = (Inr summ, s))" if "counters_consistent s"
  proof -
    have "counters_consistent (snd (snd (scan fs s)))" using that by (simp add: scan_consistent)
    moreover from this have "fst (snd (scan fs s)) = Inr ()"
      by (simp add: scan_raised verify_counters_iff)
    moreover have "verify_counters s = Inr ()" using that by (simp add: verify_counters_iff)
    then have "\<exists>summ. get_summary s = (Inr summ, s)" by (simp add: get_summary_def)
    ultimately show ?thesis by blast
  qed
  have c: "fst (snd (scan fs s)) =
        Inl (RuntimeError (Counter_mismatch (total_discovered (snd (snd (scan fs s))))
               (total_processed (snd (snd (scan fs s)))) (total_failed (snd (snd (scan fs s)))))) \<and>
      get_summary s =
        (Inl (RuntimeError (Counter_mismatch (total_discovered s) (total_processed s)
                (total_failed s))), s)" if "\<not> counters_consistent s"
  proof -
    have "\<not> counters_consistent (snd (snd (scan fs s)))" using that by (simp add: scan_consistent)
    then have "fst (snd (scan fs s)) =
        Inl (RuntimeError (Counter_mismatch (total_discovered (snd (snd (scan fs s))))
               (total_processed (snd (snd (scan fs s)))) (total_failed (snd (snd (scan fs s))))))"
      by (subst scan_raised) (simp add: verify_counters_def counters_consistent_def)
    moreover have "get_summary s =
        (Inl (RuntimeError (Counter_mismatch (total_discovered s) (total_processed s)
                (total_failed s))), s)"
      using that by (simp add: get_summary_def verify_counters_def counters_consistent_def)
    ultimately show ?thesis by blast
  qed
  have d: "counters_consistent (snd (snd (scan fs s)))" if "fst (snd (scan fs s)) = Inr ()"
    using that by (simp add: scan_raised verify_counters_iff)
  from a b c d show ?thesis by blast
qed

theorem counter_invariant_checked_witness:
  "counters_consistent demo_scanner \<and>
   fst (snd (scan demo_fs demo_scanner)) = Inr () \<and>
   counters_consistent (snd (snd (scan demo_fs demo_scanner))) \<and>
   \<not> counters_consistent (demo_scanner\<lparr>total_failed := 1\<rparr>) \<and>
   fst (get_summary (demo_scanner\<lparr>total_failed := 1\<rparr>)) =
     Inl (RuntimeError (Counter_mismatch 0 0 1)) \<and>
   (\<exists>d p f. fst (snd (scan demo_fs (demo_scanner\<lparr>total_failed := 1\<rparr>))) =
      Inl (RuntimeError (Counter_mismatch d p f)))"
proof -
  have ok: "counters_consistent demo_scanner"
    by (simp add: counters_consistent_def demo_scanner_def init_def)
  have bad: "\<not> counters_consistent (demo_scanner\<lparr>total_failed := 1\<rparr>)"
    by (simp add: counters_consistent_def demo_scanner_def init_def)
  show ?thesis
    using ok bad counter_invariant_checked [of "''/data''" 10 "[]" demo_scanner demo_fs]
      counter_invariant_checked [of "''/data''" 10 "[]" "demo_scanner\<lparr>total_failed := 1\<rparr>" demo_fs]
    by (simp add: demo_scanner_def init_def)
qed

text \<open>
  C9. When \<open>_extract_metadata\<close> raises, for whatever reason, the scanner is as it was
  before the call: none of \<open>extension_count\<close>, \<open>large_files\<close>, \<open>duplicates\<close> is modified.
\<close>

theorem extraction_failure_atomic:
  assumes "fst (extract_metadata fs s path) = Inl e"
  shows "snd (extract_metadata fs s path) = s \<and>
         extension_count (snd (extract_metadata fs s path)) = extension_count s \<and>
         large_files (snd (extract_metadata fs s path)) = large_files s \<and>
         duplicates (snd (extract_metadata fs s path)) = duplicates s"
  using extract_raises_Some [OF extract_Inl_raises [OF assms], of s] by simp

theorem extraction_failure_atomic_witness:
  "fst (extract_metadata demo_fs demo_scanner ''/data/gone.txt'') =
     Inl (OSError ''No such file or directory'') \<and>
   snd (extract_metadata demo_fs demo_scanner ''/data/gone.txt'') = demo_scanner \<and>
   fst (extract_metadata demo_fs demo_scanner ''/data/fail_me.log'') =
     Inl (RuntimeError Simulated_failure) \<and>
   snd (extract_metadata demo_fs demo_scanner ''/data/fail_me.log'') = demo_scanner"
proof -
  have g: "fst (extract_metadata demo_fs demo_scanner ''/data/gone.txt'') =
     Inl (OSError ''No such file or directory'')"
    by (simp add: extract_metadata_def demo_fs_def basename_def Let_def str_in_def lower_def
        lower_char_def sublist_code)
  have f: "fst (extract_metadata demo_fs demo_scanner ''/data/fail_me.log'') =
     Inl (RuntimeError Simulated_failure)"
    by (simp add: extract_metadata_def demo_fs_def basename_def Let_def str_in_def lower_def
        lower_char_def sublist_code)
  show ?thesis
    using g f extraction_failure_atomic [OF g] extraction_failure_atomic [OF f] by simp
qed

text \<open>
  C2. When the extraction of a discovered file raises, \<open>scan\<close> yields \<open>None\<close> for it,
  adds one to \<open>total_failed\<close>, logs the path and the exception, and goes on: a scan yields
  one item for every file of the walk, \<open>None\<close> exactly for the files whose extraction
  raises, counts all of them in \<open>total_failed\<close> and logs each of them.
\<close>

theorem failure_recovered_locally:
  "(fst (extract_metadata fs (s\<lparr>total_discovered := total_discovered s + 1\<rparr>)
          (join root filename)) = Inl e \<longrightarrow>
      scan_file fs root s filename =
        (None, s\<lparr>total_discovered := total_discovered s + 1,
                 total_failed := total_failed s + 1,
                 logged := logged s @ [Error_failed (join root filename) e]\<rparr>)) \<and>
   map (\<lambda>y. y = None) (fst (scan fs s)) =
     map (\<lambda>p. \<exists>e. fst (extract_metadata fs s p) = Inl e) (walk_paths (os_walk fs (root_path s))) \<and>
   total_failed (snd (snd (scan fs s))) =
     total_failed s + int (length (failed_paths fs (walk_paths (os_walk fs (root_path s))))) \<and>
   (\<forall>p\<in>set (walk_paths (os_walk fs (root_path s))). \<forall>e.
      fst (extract_metadata fs s p) = Inl e \<longrightarrow>
      Error_failed p e \<in> set (logged (snd (snd (scan fs s)))))"
proof -
  let ?ps = "walk_paths (os_walk fs (root_path s))"
  have raises: "(\<exists>e. fst (extract_metadata fs s p) = Inl e) = (extract_raises fs p \<noteq> None)" for p
    using extract_Inl_raises [of fs s p] extract_raises_Some [of fs p _ s] by fastforce
  have a: "scan_file fs root s filename =
        (None, s\<lparr>total_discovered := total_discovered s + 1,
                 total_failed := total_failed s + 1,
                 logged := logged s @ [Error_failed (join root filename) e]\<rparr>)"
    if "fst (extract_metadata fs (s\<lparr>total_discovered := total_discovered s + 1\<rparr>)
          (join root filename)) = Inl e"
    using scan_path_fail [OF extract_Inl_raises [OF that], of s]
    by (simp add: scan_file_scan_path)
  have b: "map (\<lambda>y. y = None) (fst (scan fs s)) =
     map (\<lambda>p. \<exists>e. fst (extract_metadata fs s p) = Inl e) ?ps"
    by (simp add: scan_yielded scan_paths_yields raises)
  have c: "total_failed (snd (snd (scan fs s))) = total_failed s + int (length (failed_paths fs ?ps))"
    by (simp add: scan_final scan_paths_counters)
  have d: "Error_failed p e \<in> set (logged (snd (snd (scan fs s))))"
    if "p \<in> set ?ps" "fst (extract_metadata fs s p) = Inl e" for p e
    unfolding scan_final
    using that(1) extract_Inl_raises [OF that(2)] by (rule scan_paths_failed_logged)
  from a b c d show ?thesis by blast
qed

theorem failure_recovered_locally_witness:
  "fst (extract_metadata demo_fs (demo_scanner\<lparr>total_discovered := total_discovered demo_scanner + 1\<rparr>)
          (join ''/data'' ''gone.txt'')) = Inl (OSError ''No such file or directory'') \<and>
   scan_file demo_fs ''/data'' demo_scanner ''gone.txt'' =
     (None, demo_scanner\<lparr>total_discovered := total_discovered demo_scanner + 1,
        total_failed := total_failed demo_scanner + 1,
        logged := logged demo_scanner @
          [Error_failed (join ''/data'' ''gone.txt'') (OSError ''No such file or directory'')]\<rparr>) \<and>
   ''/data/gone.txt'' \<in> set (walk_paths (os_walk demo_fs (root_path demo_scanner))) \<and>
   fst (extract_metadata demo_fs demo_scanner ''/data/gone.txt'') =
     Inl (OSError ''No such file or directory'') \<and>
   Error_failed ''/data/gone.txt'' (OSError ''No such file or directory'')
     \<in> set (logged (snd (snd (scan demo_fs demo_scanner))))"
proof -
  have h1: "fst (extract_metadata demo_fs
      (demo_scanner\<lparr>total_discovered := total_discovered demo_scanner + 1\<rparr>)
      (join ''/data'' ''gone.txt'')) = Inl (OSError ''No such file or directory'')"
    by (simp add: extract_metadata_def demo_eval)
  have h2: "''/data/gone.txt'' \<in> set (walk_paths (os_walk demo_fs (root_path demo_scanner)))"
    by (simp add: walk_paths_def demo_eval)
  have h3: "fst (extract_metadata demo_fs demo_scanner ''/data/gone.txt'') =
     Inl (OSError ''No such file or directory'')"
    by (simp add: extract_metadata_def demo_eval)
  note T = failure_recovered_locally [of demo_fs demo_scanner "''/data''" "''gone.txt''"
        "OSError ''No such file or directory''"]
  from T h1 have c1: "scan_file demo_fs ''/data'' demo_scanner ''gone.txt'' =
     (None, demo_scanner\<lparr>total_discovered := total_discovered demo_scanner + 1,
        total_failed := total_failed demo_scanner + 1,
        logged := logged demo_scanner @
          [Error_failed (join ''/data'' ''gone.txt'') (OSError ''No such file or directory'')]\<rparr>)"
    by blast
  from T h2 h3 have c2: "Error_failed ''/data/gone.txt'' (OSError ''No such file or directory'')
     \<in> set (logged (snd (snd (scan demo_fs demo_scanner))))"
    by blast
  from h1 c1 h2 h3 c2 show ?thesis by blast
qed

text \<open>
  C3. A path whose base name contains \<open>fail\<close>, in any mix of cases, makes
  \<open>_extract_metadata\<close> raise the simulated \<open>RuntimeError\<close> and leave the scanner untouched;
  \<open>scan\<close> counts such a file as failed and not as processed. After the scan of a fresh
  scanner no such path is in \<open>large_files\<close>, no such name is a key of \<open>duplicates\<close>, no such
  path is in a list of \<open>duplicates\<close>, and \<open>extension_count\<close> is built from paths none of
  which is such a path.
\<close>

theorem simulated_failure_never_processed:
  "(simulated_failure path \<longrightarrow>
      extract_metadata fs s path = (Inl (RuntimeError Simulated_failure), s)) \<and>
   (CHR ''/'' \<notin> set filename \<and> str_in ''fail'' (lower filename) \<longrightarrow>
      scan_file fs root s filename =
        (None, s\<lparr>total_discovered := total_discovered s + 1,
                 total_failed := total_failed s + 1,
                 logged := logged s @
                   [Error_failed (join root filename) (RuntimeError Simulated_failure)]\<rparr>)) \<and>
   (\<forall>p\<in>set (large_files (snd (snd (scan fs (init root mb lg))))). \<not> simulated_failure p) \<and>
   (\<forall>(name, paths)\<in>set (duplicates (snd (snd (scan fs (init root mb lg))))).
      \<not> str_in ''fail'' (lower name) \<and> (\<forall>p\<in>set paths. \<not> simulated_failure p)) \<and>
   extension_count (snd (snd (scan fs (init root mb lg)))) =
     fold (\<lambda>p d. dict_incr d (extension_of p))
       (processed_paths fs (walk_paths (os_walk fs root))) [] \<and>
   (\<forall>p\<in>set (processed_paths fs (walk_paths (os_walk fs root))). \<not> simulated_failure p)"
proof -
  let ?pp = "processed_paths fs (walk_paths (os_walk fs root))"
  have raises: "extract_raises fs p = Some (RuntimeError Simulated_failure)"
    if "simulated_failure p" for p
    using that by (simp add: extract_raises_def simulated_failure_def)
  have a: "extract_metadata fs s path = (Inl (RuntimeError Simulated_failure), s)"
    if "simulated_failure path"
    using raises [OF that] by (rule extract_raises_Some)
  have b: "scan_file fs root s filename =
        (None, s\<lparr>total_discovered := total_discovered s + 1,
                 total_failed := total_failed s + 1,
                 logged := logged s @
                   [Error_failed (join root filename) (RuntimeError Simulated_failure)]\<rparr>)"
    if "CHR ''/'' \<notin> set filename \<and> str_in ''fail'' (lower filename)"
  proof -
    have "basename (join root filename) = filename" using that by (simp add: basename_join)
    then have "simulated_failure (join root filename)"
      using that by (simp add: simulated_failure_def)
    then show ?thesis
      unfolding scan_file_scan_path by (intro scan_path_fail raises)
  qed
  have clean: "\<forall>p\<in>set ?pp. \<not> simulated_failure p"
    using processed_not_simulated by blast
  have c: "\<forall>p\<in>set (large_files (snd (snd (scan fs (init root mb lg))))). \<not> simulated_failure p"
    using clean large_paths_subset [of fs "mb * 1024 * 1024" ?pp]
    by (auto simp: scan_aggregates init_fields)
  have names: "\<forall>p\<in>set ?pp. \<not> str_in ''fail'' (lower (basename p)) \<and> \<not> simulated_failure p"
    using clean by (simp add: simulated_failure_def)
  have d: "\<forall>(name, paths)\<in>set (duplicates (snd (snd (scan fs (init root mb lg))))).
      \<not> str_in ''fail'' (lower name) \<and> (\<forall>p\<in>set paths. \<not> simulated_failure p)"
    unfolding scan_aggregates init_fields
    by (rule dict_append_fold_clean [where f = basename]) (use names in simp_all)
  have e: "extension_count (snd (snd (scan fs (init root mb lg)))) =
     fold (\<lambda>p d. dict_incr d (extension_of p)) ?pp []"
    by (simp add: scan_aggregates init_fields)
  from a b c d e clean show ?thesis by blast
qed

theorem simulated_failure_never_processed_witness:
  "simulated_failure ''/data/FAIL_me.log'' \<and>
   extract_metadata demo_fs demo_scanner ''/data/FAIL_me.log'' =
     (Inl (RuntimeError Simulated_failure), demo_scanner) \<and>
   CHR ''/'' \<notin> set ''fail_me.log'' \<and> str_in ''fail'' (lower ''fail_me.log'') \<and>
   scan_file demo_fs ''/data'' demo_scanner ''fail_me.log'' =
     (None, demo_scanner\<lparr>total_discovered := total_discovered demo_scanner + 1,
        total_failed := total_failed demo_scanner + 1,
        logged := logged demo_scanner @
          [Error_failed (join ''/data'' ''fail_me.log'') (RuntimeError Simulated_failure)]\<rparr>) \<and>
   ''/data/a.txt'' \<in> set (processed_paths demo_fs (walk_paths (os_walk demo_fs ''/data''))) \<and>
   \<not> simulated_failure ''/data/a.txt''"
proof -
  have h1: "simulated_failure ''/data/FAIL_me.log''"
    by (simp add: demo_eval)
  have h2: "CHR ''/'' \<notin> set ''fail_me.log'' \<and> str_in ''fail'' (lower ''fail_me.log'')"
    by (simp add: demo_eval)
  have h3: "''/data/a.txt'' \<in> set (processed_paths demo_fs (walk_paths (os_walk demo_fs ''/data'')))"
    by (simp add: processed_paths_def walk_paths_def extract_raises_def demo_eval)
  note T1 = simulated_failure_never_processed [of "''/data/FAIL_me.log''" demo_fs demo_scanner
      "''fail_me.log''" "''/data''" 10 "[]"]
  from T1 h1 have c1: "extract_metadata demo_fs demo_scanner ''/data/FAIL_me.log'' =
     (Inl (RuntimeError Simulated_failure), demo_scanner)" by blast
  from T1 h2 have c2: "scan_file demo_fs ''/data'' demo_scanner ''fail_me.log'' =
     (None, demo_scanner\<lparr>total_discovered := total_discovered demo_scanner + 1,
        total_failed := total_failed demo_scanner + 1,
        logged := logged demo_scanner @
          [Error_failed (join ''/data'' ''fail_me.log'') (RuntimeError Simulated_failure)]\<rparr>)"
    by blast
  from T1 h3 have c3: "\<not> simulated_failure ''/data/a.txt''" by blast
  from h1 h2 h3 c1 c2 c3 show ?thesis by blast
qed

text \<open>
  C4. The threshold is converted from megabytes to bytes in \<open>__init__\<close> and changed neither
  by an extraction nor by a scan. For a file whose extraction succeeds, with a threshold
  of \<open>mb\<close> megabytes: a size of exactly \<open>mb * 1024 * 1024\<close> bytes leaves \<open>large_files\<close> as it
  is and logs no large-file warning; a size of one byte more appends the path to
  \<open>large_files\<close> and logs the large-file warning.
\<close>

theorem large_file_strictly_greater:
  "large_file_threshold_bytes (init root mb lg) = mb * 1024 * 1024 \<and>
   large_file_threshold_bytes (snd (extract_metadata fs s path)) = large_file_threshold_bytes s \<and>
   large_file_threshold_bytes (snd (snd (scan fs s))) = large_file_threshold_bytes s \<and>
   (large_file_threshold_bytes s = mb * 1024 * 1024 \<and> extract_raises fs path = None \<and>
    getsize fs path = Inr sz \<and> int sz = mb * 1024 * 1024 \<longrightarrow>
      large_files (snd (extract_metadata fs s path)) = large_files s \<and>
      logged (snd (extract_metadata fs s path)) =
        logged s @ (if sz = 0 then [Warning_zero_byte path] else [])) \<and>
   (large_file_threshold_bytes s = mb * 1024 * 1024 \<and> extract_raises fs path = None \<and>
    getsize fs path = Inr sz \<and> int sz = mb * 1024 * 1024 + 1 \<longrightarrow>
      large_files (snd (extract_metadata fs s path)) = large_files s @ [path] \<and>
      logged (snd (extract_metadata fs s path)) =
        logged s @ [Warning_large_file mb path sz])"
proof -
  have a: "large_file_threshold_bytes (init root mb lg) = mb * 1024 * 1024"
    by (simp add: init_fields)
  have b: "large_file_threshold_bytes (snd (extract_metadata fs s path)) =
      large_file_threshold_bytes s"
    by (simp add: extract_frame)
  have c: "large_file_threshold_bytes (snd (snd (scan fs s))) = large_file_threshold_bytes s"
    by (simp add: scan_counters)
  have d: "large_files (snd (extract_metadata fs s path)) = large_files s \<and>
      logged (snd (extract_metadata fs s path)) =
        logged s @ (if sz = 0 then [Warning_zero_byte path] else [])"
    if h: "large_file_threshold_bytes s = mb * 1024 * 1024 \<and> extract_raises fs path = None \<and>
      getsize fs path = Inr sz \<and> int sz = mb * 1024 * 1024"
  proof -
    obtain dt where ok: "\<not> str_in ''fail'' (lower (basename path))"
      "getsize fs path = Inr sz" "getmtime_local fs path = Inr dt"
      using extract_raises_NoneD [of fs path] h by auto
    show ?thesis
      using h by (simp add: extract_success [OF ok] large_entry_def size_warning_def)
  qed
  have e: "large_files (snd (extract_metadata fs s path)) = large_files s @ [path] \<and>
      logged (snd (extract_metadata fs s path)) = logged s @ [Warning_large_file mb path sz]"
    if h: "large_file_threshold_bytes s = mb * 1024 * 1024 \<and> extract_raises fs path = None \<and>
      getsize fs path = Inr sz \<and> int sz = mb * 1024 * 1024 + 1"
  proof -
    obtain dt where ok: "\<not> str_in ''fail'' (lower (basename path))"
      "getsize fs path = Inr sz" "getmtime_local fs path = Inr dt"
      using extract_raises_NoneD [of fs path] h by auto
    have "0 \<le> mb"
    proof (rule ccontr)
      assume "\<not> 0 \<le> mb"
      then have "mb * 1024 * 1024 + 1 < 0" by simp
      with h show False by simp
    qed
    then have "0 < mb * 1024 * 1024 + 1" by simp
    with h have "0 < int sz" by simp
    then have nz: "sz \<noteq> 0" by simp
    have gt: "int sz > mb * 1024 * 1024" using h by simp
    have dv: "mb * 1024 * 1024 div (1024 * 1024) = mb" by simp
    show ?thesis
      using h nz gt dv by (simp add: extract_success [OF ok] large_entry_def size_warning_def)
  qed
  from a b c d e show ?thesis by blast
qed

theorem large_file_strictly_greater_witness:
  "large_file_threshold_bytes demo_scanner = 10 * 1024 * 1024 \<and>
   extract_raises demo_fs ''/data/exact.bin'' = None \<and>
   getsize demo_fs ''/data/exact.bin'' = Inr 10485760 \<and>
   int 10485760 = 10 * 1024 * 1024 \<and>
   large_files (snd (extract_metadata demo_fs demo_scanner ''/data/exact.bin'')) =
     large_files demo_scanner \<and>
   extract_raises demo_fs ''/data/big.bin'' = None \<and>
   getsize demo_fs ''/data/big.bin'' = Inr 10485761 \<and>
   int 10485761 = 10 * 1024 * 1024 + 1 \<and>
   large_files (snd (extract_metadata demo_fs demo_scanner ''/data/big.bin'')) =
     large_files demo_scanner @ [''/data/big.bin''] \<and>
   logged (snd (extract_metadata demo_fs demo_scanner ''/data/big.bin'')) =
     logged demo_scanner @ [Warning_large_file 10 ''/data/big.bin'' 10485761]"
proof -
  have t: "large_file_threshold_bytes demo_scanner = 10 * 1024 * 1024"
    by (simp add: demo_scanner_def init_def)
  have x1: "extract_raises demo_fs ''/data/exact.bin'' = None"
    by (simp add: extract_raises_def demo_eval)
  have x2: "getsize demo_fs ''/data/exact.bin'' = Inr 10485760"
    by (simp add: demo_fs_def)
  have x3: "int 10485760 = 10 * 1024 * 1024" by simp
  have b1: "extract_raises demo_fs ''/data/big.bin'' = None"
    by (simp add: extract_raises_def demo_eval)
  have b2: "getsize demo_fs ''/data/big.bin'' = Inr 10485761"
    by (simp add: demo_fs_def)
  have b3: "int 10485761 = 10 * 1024 * 1024 + 1" by simp
  note X = large_file_strictly_greater [of "''/data''" 10 "[]" demo_fs demo_scanner
      "''/data/exact.bin''" 10485760]
  note B = large_file_strictly_greater [of "''/data''" 10 "[]" demo_fs demo_scanner
      "''/data/big.bin''" 10485761]
  from X t x1 x2 x3 have cx:
    "large_files (snd (extract_metadata demo_fs demo_scanner ''/data/exact.bin'')) =
     large_files demo_scanner" by blast
  from B t b1 b2 b3 have cb:
    "large_files (snd (extract_metadata demo_fs demo_scanner ''/data/big.bin'')) =
       large_files demo_scanner @ [''/data/big.bin''] \<and>
     logged (snd (extract_metadata demo_fs demo_scanner ''/data/big.bin'')) =
       logged demo_scanner @ [Warning_large_file 10 ''/data/big.bin'' 10485761]" by blast
  from t x1 x2 x3 cx b1 b2 b3 cb show ?thesis by blast
qed

text \<open>
  C7. A file of zero bytes whose base name does not contain \<open>fail\<close> and whose times can
  be read is processed: \<open>scan\<close> yields its record and adds one to \<open>total_processed\<close> and
  nothing to \<open>total_failed\<close>, the zero-byte warning is logged, its extension is counted in
  \<open>extension_count\<close>, its path is appended under its base name in \<open>duplicates\<close>, and
  \<open>large_files\<close> stays as it is, whatever the threshold.
\<close>

theorem zero_byte_file_processed:
  assumes "\<not> simulated_failure (join root filename)"
    and "getsize fs (join root filename) = Inr 0"
    and "getmtime_local fs (join root filename) = Inr dt"
  shows "fst (scan_file fs root s filename) =
           Some \<lparr> meta_path = join root filename, meta_size = 0,
                  meta_extension = extension_of (join root filename),
                  meta_modified = strftime dt \<rparr> \<and>
         total_processed (snd (scan_file fs root s filename)) = total_processed s + 1 \<and>
         total_failed (snd (scan_file fs root s filename)) = total_failed s \<and>
         logged (snd (scan_file fs root s filename)) =
           logged s @ [Warning_zero_byte (join root filename)] \<and>
         large_files (snd (scan_file fs root s filename)) = large_files s \<and>
         map_of (extension_count (snd (scan_file fs root s filename)))
             (extension_of (join root filename)) =
           Some ((case map_of (extension_count s) (extension_of (join root filename)) of
                    None \<Rightarrow> 0 | Some c \<Rightarrow> c) + 1) \<and>
         map_of (duplicates (snd (scan_file fs root s filename)))
             (basename (join root filename)) =
           Some ((case map_of (duplicates s) (basename (join root filename)) of
                    None \<Rightarrow> [] | Some vs \<Rightarrow> vs) @ [join root filename])"
proof -
  have ok: "\<not> str_in ''fail'' (lower (basename (join root filename)))"
    using assms(1) by (simp add: simulated_failure_def)
  show ?thesis
    unfolding scan_file_scan_path
    by (simp add: scan_path_success [OF ok assms(2,3)] size_warning_def large_entry_def
        map_of_dict_incr map_of_dict_append)
qed

theorem zero_byte_file_processed_witness:
  "\<not> simulated_failure (join ''/data'' ''empty.dat'') \<and>
   getsize demo_fs (join ''/data'' ''empty.dat'') = Inr 0 \<and>
   getmtime_local demo_fs (join ''/data'' ''empty.dat'') = Inr demo_time \<and>
   total_processed (snd (scan_file demo_fs ''/data'' demo_scanner ''empty.dat'')) =
     total_processed demo_scanner + 1 \<and>
   logged (snd (scan_file demo_fs ''/data'' demo_scanner ''empty.dat'')) =
     logged demo_scanner @ [Warning_zero_byte (join ''/data'' ''empty.dat'')] \<and>
   large_files (snd (scan_file demo_fs ''/data'' demo_scanner ''empty.dat'')) =
     large_files demo_scanner"
proof -
  have h1: "\<not> simulated_failure (join ''/data'' ''empty.dat'')"
    by (simp add: demo_eval)
  have h2: "getsize demo_fs (join ''/data'' ''empty.dat'') = Inr 0"
    by (simp add: demo_eval)
  have h3: "getmtime_local demo_fs (join ''/data'' ''empty.dat'') = Inr demo_time"
    by (simp add: demo_eval)
  from h1 h2 h3 zero_byte_file_processed [OF h1 h2 h3, of demo_scanner]
  show ?thesis by blast
qed

text \<open>
  C8. Whatever sequence of \<open>get_summary\<close>, \<open>report_summary\<close> and \<open>report_duplicates\<close> a
  caller runs, the counters, the threshold and the three indices of the scanner are
  afterwards what they were before, and \<open>get_summary\<close> returns what it returned before;
  \<open>get_summary\<close> itself leaves the whole scanner as it is, so two retrievals in
  succession give the same result.
\<close>

theorem read_only_operations:
  "total_discovered (fold run_read_op ops s) = total_discovered s \<and>
   total_processed (fold run_read_op ops s) = total_processed s \<and>
   total_failed (fold run_read_op ops s) = total_failed s \<and>
   large_file_threshold_bytes (fold run_read_op ops s) = large_file_threshold_bytes s \<and>
   extension_count (fold run_read_op ops s) = extension_count s \<and>
   large_files (fold run_read_op ops s) = large_files s \<and>
   duplicates (fold run_read_op ops s) = duplicates s \<and>
   fst (get_summary (fold run_read_op ops s)) = fst (get_summary s) \<and>
   snd (get_summary s) = s \<and>
   fst (get_summary (snd (get_summary s))) = fst (get_summary s)"
proof -
  note fr = read_ops_frame [of ops s]
  have g: "fst (get_summary (fold run_read_op ops s)) = fst (get_summary s)"
    using fr by (intro get_summary_depends) simp_all
  have u: "snd (get_summary s) = s"
    by (simp add: get_summary_def split: sum.splits)
  from fr g u show ?thesis by simp
qed

text \<open>
  C10. A successful extraction adds exactly one to the sum of the counts of
  \<open>extension_count\<close> and exactly one path to \<open>duplicates\<close>, and at most one path to
  \<open>large_files\<close>, while \<open>scan\<close> adds one to \<open>total_processed\<close>. So after the scan of a
  fresh scanner the counts of \<open>extension_count\<close> sum to \<open>total_processed\<close>, \<open>duplicates\<close>
  holds \<open>total_processed\<close> paths and \<open>large_files\<close> at most \<open>total_processed\<close>; and a scan
  that starts from a scanner with these three properties ends in one.
\<close>

theorem aggregates_match_processed:
  "ext_total (extension_count (snd (snd (scan fs (init root mb lg))))) =
     total_processed (snd (snd (scan fs (init root mb lg)))) \<and>
   dup_total (duplicates (snd (snd (scan fs (init root mb lg))))) =
     total_processed (snd (snd (scan fs (init root mb lg)))) \<and>
   int (length (large_files (snd (snd (scan fs (init root mb lg)))))) \<le>
     total_processed (snd (snd (scan fs (init root mb lg)))) \<and>
   (ext_total (extension_count s) = total_processed s \<and>
    dup_total (duplicates s) = total_processed s \<and>
    int (length (large_files s)) \<le> total_processed s \<longrightarrow>
      ext_total (extension_count (snd (snd (scan fs s)))) = total_processed (snd (snd (scan fs s))) \<and>
      dup_total (duplicates (snd (snd (scan fs s)))) = total_processed (snd (snd (scan fs s))) \<and>
      int (length (large_files (snd (snd (scan fs s))))) \<le> total_processed (snd (snd (scan fs s)))) \<and>
   (extract_raises fs (join r f) = None \<longrightarrow>
      total_processed (snd (scan_file fs r s f)) = total_processed s + 1 \<and>
      ext_total (extension_count (snd (scan_file fs r s f))) = ext_total (extension_count s) + 1 \<and>
      dup_total (duplicates (snd (scan_file fs r s f))) = dup_total (duplicates s) + 1 \<and>
      length (large_files (snd (scan_file fs r s f))) \<le> length (large_files s) + 1)"
proof -
  have gen: "ext_total (extension_count (snd (snd (scan fs t)))) = total_processed (snd (snd (scan fs t))) \<and>
      dup_total (duplicates (snd (snd (scan fs t)))) = total_processed (snd (snd (scan fs t))) \<and>
      int (length (large_files (snd (snd (scan fs t))))) \<le> total_processed (snd (snd (scan fs t)))"
    if "ext_total (extension_count t) = total_processed t \<and>
        dup_total (duplicates t) = total_processed t \<and>
        int (length (large_files t)) \<le> total_processed t" for t
  proof -
    let ?pp = "processed_paths fs (walk_paths (os_walk fs (root_path t)))"
    have "length (large_paths fs (large_file_threshold_bytes t) ?pp) \<le> length ?pp"
      by (rule length_large_paths)
    then have "int (length (large_paths fs (large_file_threshold_bytes t) ?pp)) \<le> int (length ?pp)"
      by simp
    with that show ?thesis
      by (simp add: scan_aggregates scan_counters ext_total_fold dup_total_fold)
  qed
  have fresh: "ext_total (extension_count (init root mb lg)) = total_processed (init root mb lg) \<and>
        dup_total (duplicates (init root mb lg)) = total_processed (init root mb lg) \<and>
        int (length (large_files (init root mb lg))) \<le> total_processed (init root mb lg)"
    by (simp add: init_fields ext_total_def dup_total_def)
  have one: "total_processed (snd (scan_file fs r s f)) = total_processed s + 1 \<and>
      ext_total (extension_count (snd (scan_file fs r s f))) = ext_total (extension_count s) + 1 \<and>
      dup_total (duplicates (snd (scan_file fs r s f))) = dup_total (duplicates s) + 1 \<and>
      length (large_files (snd (scan_file fs r s f))) \<le> length (large_files s) + 1"
    if h: "extract_raises fs (join r f) = None"
  proof -
    have "length (large_paths fs (large_file_threshold_bytes s) [join r f]) \<le> 1"
      using length_large_paths [of fs "large_file_threshold_bytes s" "[join r f]"] by simp
    then show ?thesis
      unfolding scan_file_scan_path
      using scan_path_counters [of fs s "join r f"]
      by (simp add: scan_path_aggregates_ok [OF h] ext_total_dict_incr dup_total_dict_append h)
  qed
  from gen [OF fresh] gen [of s] one show ?thesis by blast
qed

theorem aggregates_match_processed_witness:
  "ext_total (extension_count demo_scanner) = total_processed demo_scanner \<and>
   dup_total (duplicates demo_scanner) = total_processed demo_scanner \<and>
   int (length (large_files demo_scanner)) \<le> total_processed demo_scanner \<and>
   ext_total (extension_count (snd (snd (scan demo_fs demo_scanner)))) =
     total_processed (snd (snd (scan demo_fs demo_scanner))) \<and>
   extract_raises demo_fs (join ''/data'' ''big.bin'') = None \<and>
   ext_total (extension_count (snd (scan_file demo_fs ''/data'' demo_scanner ''big.bin''))) =
     ext_total (extension_count demo_scanner) + 1"
proof -
  have h1: "ext_total (extension_count demo_scanner) = total_processed demo_scanner \<and>
     dup_total (duplicates demo_scanner) = total_processed demo_scanner \<and>
     int (length (large_files demo_scanner)) \<le> total_processed demo_scanner"
    by (simp add: demo_scanner_def init_def ext_total_def dup_total_def)
  have h2: "extract_raises demo_fs (join ''/data'' ''big.bin'') = None"
    by (simp add: extract_raises_def demo_eval)
  note T = aggregates_match_processed [of demo_fs "''/data''" 10 "[]" demo_scanner
      "''/data''" "''big.bin''"]
  from T h1 have c1: "ext_total (extension_count (snd (snd (scan demo_fs demo_scanner)))) =
     total_processed (snd (snd (scan demo_fs demo_scanner)))" by blast
  from T h2 have c2:
    "ext_total (extension_count (snd (scan_file demo_fs ''/data'' demo_scanner ''big.bin''))) =
     ext_total (extension_count demo_scanner) + 1" by blast
  from h1 h2 c1 c2 show ?thesis by blast
qed

text \<open>
  C6. A successful extraction appends the full path to the list that \<open>duplicates\<close> holds
  under the base name of the path (the empty list when the name is new) and leaves the
  other names alone. After the scan of a fresh scanner every name is a key at most once,
  and the list under a name is the list of all processed paths with that base name, in
  the order of discovery: a name with a single path is a key too. \<open>report_duplicates\<close>
  leaves the index as it is and logs exactly the groups of more than one path, each with
  all its paths; the summary carries the index as it is, and the report writes, for each
  group of more than one path, its heading followed by all its paths, and a heading for
  no other name.
\<close>

theorem duplicate_grouping:
  "(extract_raises fs path = None \<longrightarrow>
      map_of (duplicates (snd (extract_metadata fs s path))) (basename path) =
        Some ((case map_of (duplicates s) (basename path) of None \<Rightarrow> [] | Some vs \<Rightarrow> vs) @
              [path]) \<and>
      (\<forall>other. other \<noteq> basename path \<longrightarrow>
         map_of (duplicates (snd (extract_metadata fs s path))) other =
           map_of (duplicates s) other)) \<and>
   distinct (map fst (duplicates (snd (snd (scan fs (init root mb lg)))))) \<and>
   map_of (duplicates (snd (snd (scan fs (init root mb lg))))) name =
     (if filter (\<lambda>p. basename p = name) (processed_paths fs (walk_paths (os_walk fs root))) = []
      then None
      else Some (filter (\<lambda>p. basename p = name)
                   (processed_paths fs (walk_paths (os_walk fs root))))) \<and>
   duplicates (report_duplicates s) = duplicates s \<and>
   (Info_duplicate name paths \<in> set (logged (report_duplicates s)) \<longleftrightarrow>
      Info_duplicate name paths \<in> set (logged s) \<or>
      ((name, paths) \<in> set (duplicates s) \<and> 1 < length paths)) \<and>
   (fst (get_summary s) = Inr summ \<longrightarrow> sum_duplicates summ = duplicates s) \<and>
   ((name, paths) \<in> set (sum_duplicates summ) \<and> 1 < length paths \<longrightarrow>
      sublist ([''### `'' @ name @ ''`\<newline>''] @ map (\<lambda>p. ''- `'' @ p @ ''`\<newline>'') paths @
                 [''\<newline>'']) (write_report_duplicates summ)) \<and>
   (''### `'' @ name @ ''`\<newline>'' \<in> set (write_report_duplicates summ) \<longrightarrow>
      (\<exists>ps. (name, ps) \<in> set (sum_duplicates summ) \<and> 1 < length ps))"
proof -
  have a: "map_of (duplicates (snd (extract_metadata fs s path))) (basename path) =
        Some ((case map_of (duplicates s) (basename path) of None \<Rightarrow> [] | Some vs \<Rightarrow> vs) @
              [path]) \<and>
      (\<forall>other. other \<noteq> basename path \<longrightarrow>
         map_of (duplicates (snd (extract_metadata fs s path))) other =
           map_of (duplicates s) other)"
    if h: "extract_raises fs path = None"
  proof -
    obtain sz dt where ok: "\<not> str_in ''fail'' (lower (basename path))"
      "getsize fs path = Inr sz" "getmtime_local fs path = Inr dt"
      using extract_raises_NoneD [OF h] by blast
    show ?thesis by (simp add: extract_success [OF ok] map_of_dict_append)
  qed
  have b: "distinct (map fst (duplicates (snd (snd (scan fs (init root mb lg))))))"
    unfolding scan_aggregates init_fields by (rule dict_append_fold_distinct) simp
  have c: "map_of (duplicates (snd (snd (scan fs (init root mb lg))))) name =
     (if filter (\<lambda>p. basename p = name) (processed_paths fs (walk_paths (os_walk fs root))) = []
      then None
      else Some (filter (\<lambda>p. basename p = name)
                   (processed_paths fs (walk_paths (os_walk fs root)))))"
    unfolding scan_aggregates init_fields by (simp add: map_of_dict_append_fold)
  have d: "duplicates (report_duplicates s) = duplicates s"
    by (simp add: report_duplicates_def)
  note e = report_duplicates_logged [of name paths s]
  have f: "sum_duplicates summ = duplicates s" if "fst (get_summary s) = Inr summ"
    using that by (auto simp: get_summary_def split: sum.splits)
  note g = write_report_group [of name paths summ]
  note h = write_report_heading [of name summ]
  from a b c d e f g h show ?thesis by blast
qed

theorem duplicate_grouping_witness:
  "extract_raises demo_fs ''/data/sub/a.txt'' = None \<and>
   map_of (duplicates (snd (extract_metadata demo_fs demo_scanner ''/data/sub/a.txt'')))
       (basename ''/data/sub/a.txt'') =
     Some ((case map_of (duplicates demo_scanner) (basename ''/data/sub/a.txt'') of
              None \<Rightarrow> [] | Some vs \<Rightarrow> vs) @ [''/data/sub/a.txt'']) \<and>
   map_of (duplicates (snd (snd (scan demo_fs (init ''/data'' 10 []))))) ''a.txt'' =
     Some [''/data/a.txt'', ''/data/sub/a.txt''] \<and>
   map_of (duplicates (snd (snd (scan demo_fs (init ''/data'' 10 []))))) ''big.bin'' =
     Some [''/data/big.bin''] \<and>
   map_of (duplicates (snd (snd (scan demo_fs (init ''/data'' 10 []))))) ''fail_me.log'' = None \<and>
   (''a.txt'', [''/data/a.txt'', ''/data/sub/a.txt''])
     \<in> set (duplicates (snd (snd (scan demo_fs (init ''/data'' 10 []))))) \<and>
   1 < length [''/data/a.txt'', ''/data/sub/a.txt''] \<and>
   Info_duplicate ''a.txt'' [''/data/a.txt'', ''/data/sub/a.txt'']
     \<in> set (logged (report_duplicates (snd (snd (scan demo_fs (init ''/data'' 10 [])))))) \<and>
   sublist ([''### `'' @ ''a.txt'' @ ''`\<newline>''] @
            map (\<lambda>p. ''- `'' @ p @ ''`\<newline>'') [''/data/a.txt'', ''/data/sub/a.txt''] @ [''\<newline>''])
     (write_report_duplicates
        \<lparr> sum_total_discovered = total_discovered (snd (snd (scan demo_fs (init ''/data'' 10 [])))),
          sum_total_processed = total_processed (snd (snd (scan demo_fs (init ''/data'' 10 [])))),
          sum_total_failed = total_failed (snd (snd (scan demo_fs (init ''/data'' 10 [])))),
          sum_extension_count = extension_count (snd (snd (scan demo_fs (init ''/data'' 10 [])))),
          sum_large_files = large_files (snd (snd (scan demo_fs (init ''/data'' 10 [])))),
          sum_duplicates = duplicates (snd (snd (scan demo_fs (init ''/data'' 10 [])))) \<rparr>) \<and>
   fst (get_summary (snd (snd (scan demo_fs (init ''/data'' 10 []))))) =
     Inr \<lparr> sum_total_discovered = total_discovered (snd (snd (scan demo_fs (init ''/data'' 10 [])))),
          sum_total_processed = total_processed (snd (snd (scan demo_fs (init ''/data'' 10 [])))),
          sum_total_failed = total_failed (snd (snd (scan demo_fs (init ''/data'' 10 [])))),
          sum_extension_count = extension_count (snd (snd (scan demo_fs (init ''/data'' 10 [])))),
          sum_large_files = large_files (snd (snd (scan demo_fs (init ''/data'' 10 [])))),
          sum_duplicates = duplicates (snd (snd (scan demo_fs (init ''/data'' 10 [])))) \<rparr>"
proof -
  let ?S = "snd (snd (scan demo_fs (init ''/data'' 10 [])))"
  let ?summ = "\<lparr> sum_total_discovered = total_discovered ?S,
          sum_total_processed = total_processed ?S, sum_total_failed = total_failed ?S,
          sum_extension_count = extension_count ?S, sum_large_files = large_files ?S,
          sum_duplicates = duplicates ?S \<rparr>"
  have pp: "processed_paths demo_fs (walk_paths (os_walk demo_fs ''/data'')) =
      [''/data/a.txt'', ''/data/big.bin'', ''/data/empty.dat'', ''/data/exact.bin'',
       ''/data/sub/a.txt'']"
    by (simp add: processed_paths_def walk_paths_def extract_raises_def demo_fs_def
        basename_def join_def Let_def str_in_def lower_def lower_char_def sublist_code)
  have bn: "basename ''/data/a.txt'' = ''a.txt''" "basename ''/data/big.bin'' = ''big.bin''"
    "basename ''/data/empty.dat'' = ''empty.dat''" "basename ''/data/exact.bin'' = ''exact.bin''"
    "basename ''/data/sub/a.txt'' = ''a.txt''"
    by (simp_all add: basename_def Let_def)
  have h1: "extract_raises demo_fs ''/data/sub/a.txt'' = None"
    by (simp add: extract_raises_def demo_fs_def basename_def Let_def str_in_def lower_def
        lower_char_def sublist_code)
  note T1 = duplicate_grouping [of demo_fs "''/data/sub/a.txt''" demo_scanner "''/data''" 10 "[]"
      "''a.txt''" "[''/data/a.txt'', ''/data/sub/a.txt'']" ?summ]
  note T2 = duplicate_grouping [of demo_fs "''/data/sub/a.txt''" ?S "''/data''" 10 "[]"
      "''a.txt''" "[''/data/a.txt'', ''/data/sub/a.txt'']" ?summ]
  from T1 h1 have c1:
    "map_of (duplicates (snd (extract_metadata demo_fs demo_scanner ''/data/sub/a.txt'')))
       (basename ''/data/sub/a.txt'') =
     Some ((case map_of (duplicates demo_scanner) (basename ''/data/sub/a.txt'') of
              None \<Rightarrow> [] | Some vs \<Rightarrow> vs) @ [''/data/sub/a.txt''])"
    by blast
  have c2: "map_of (duplicates ?S) ''a.txt'' = Some [''/data/a.txt'', ''/data/sub/a.txt'']"
    using duplicate_grouping [of demo_fs "''/data/sub/a.txt''" demo_scanner "''/data''" 10 "[]"
      "''a.txt''" "[]" ?summ]
    by (simp add: pp bn)
  have c3: "map_of (duplicates ?S) ''big.bin'' = Some [''/data/big.bin'']"
    using duplicate_grouping [of demo_fs "''/data/sub/a.txt''" demo_scanner "''/data''" 10 "[]"
      "''big.bin''" "[]" ?summ]
    by (simp add: pp bn)
  have c4: "map_of (duplicates ?S) ''fail_me.log'' = None"
    using duplicate_grouping [of demo_fs "''/data/sub/a.txt''" demo_scanner "''/data''" 10 "[]"
      "''fail_me.log''" "[]" ?summ]
    by (simp add: pp bn)
  have h2: "(''a.txt'', [''/data/a.txt'', ''/data/sub/a.txt'']) \<in> set (duplicates ?S)"
    using c2 by (rule map_of_SomeD)
  have h3: "1 < length [''/data/a.txt'', ''/data/sub/a.txt'']" by simp
  from T2 h2 h3 have c5: "Info_duplicate ''a.txt'' [''/data/a.txt'', ''/data/sub/a.txt'']
     \<in> set (logged (report_duplicates ?S))"
    by blast
  have h4: "(''a.txt'', [''/data/a.txt'', ''/data/sub/a.txt'']) \<in> set (sum_duplicates ?summ)"
    using h2 by simp
  from T1 h4 h3 have c6: "sublist ([''### `'' @ ''a.txt'' @ ''`\<newline>''] @
            map (\<lambda>p. ''- `'' @ p @ ''`\<newline>'') [''/data/a.txt'', ''/data/sub/a.txt''] @ [''\<newline>''])
     (write_report_duplicates ?summ)"
    by blast
  have "counters_consistent (init ''/data'' 10 [])"
    by (simp add: counters_consistent_def init_fields)
  then have "counters_consistent ?S"
    by (simp only: scan_consistent)
  then have "verify_counters ?S = Inr ()"
    by (simp only: verify_counters_iff)
  then have h5: "fst (get_summary ?S) = Inr ?summ"
    by (simp add: get_summary_def)
  from T2 h5 have c7: "sum_duplicates ?summ = duplicates ?S" by blast
  from h1 c1 c2 c3 c4 h2 h3 c5 c6 h5 show ?thesis by blast
qed

text \<open>
  C5. As the specification words it, the extension of \<open>/data/a.txt\<close> would be \<open>txt\<close>, the text
  after the last dot of the base name; the record holds \<open>.txt\<close>. And a file last modified
  in the year 999 gets a \<open>modified\<close> field of eighteen characters, which is not of the
  shape \<open>YYYY-MM-DD HH:MM:SS\<close>.
\<close>

theorem extension_text_after_dot_counterexample:
  "fst (extract_metadata demo_fs demo_scanner ''/data/a.txt'') =
     Inr \<lparr> meta_path = ''/data/a.txt'', meta_size = 5, meta_extension = ''.txt'',
            meta_modified = ''2024-03-09 07:05:01'' \<rparr> \<and>
   text_after_last_dot ''/data/a.txt'' = ''txt'' \<and>
   ''.txt'' \<noteq> text_after_last_dot ''/data/a.txt'' \<and>
   fst (extract_metadata old_fs (init ''/archive'' 10 []) ''/archive/old.txt'') =
     Inr \<lparr> meta_path = ''/archive/old.txt'', meta_size = 5, meta_extension = ''.txt'',
            meta_modified = ''999-01-01 00:00:00'' \<rparr> \<and>
   length ''999-01-01 00:00:00'' = 18 \<and>
   \<not> ymd_hms_format ''999-01-01 00:00:00''"
proof -
  note ev = extract_metadata_def basename_def Let_def str_in_def lower_def lower_char_def
    sublist_code splitext_def splitext_loop.simps strftime_def pad2_def decimal.simps digit_def
  have a: "fst (extract_metadata demo_fs demo_scanner ''/data/a.txt'') =
     Inr \<lparr> meta_path = ''/data/a.txt'', meta_size = 5, meta_extension = ''.txt'',
            meta_modified = ''2024-03-09 07:05:01'' \<rparr>"
    by (simp add: ev demo_fs_def demo_time_def)
  have b: "text_after_last_dot ''/data/a.txt'' = ''txt''"
    by (simp add: text_after_last_dot_def basename_def Let_def)
  have c: "fst (extract_metadata old_fs (init ''/archive'' 10 []) ''/archive/old.txt'') =
     Inr \<lparr> meta_path = ''/archive/old.txt'', meta_size = 5, meta_extension = ''.txt'',
            meta_modified = ''999-01-01 00:00:00'' \<rparr>"
    by (simp add: ev old_fs_def old_time_def)
  have d: "\<not> ymd_hms_format ''999-01-01 00:00:00''"
    by (simp add: ymd_hms_format_def)
  from a b c d show ?thesis by simp
qed

text \<open>
  C5, amended. For every file whose extraction returns, the \<open>extension\<close> field is the end
  of the base name from its last dot on, the dot included, when a character other than a
  dot comes before that dot in the base name; it is the sentinel \<open><no-ext>\<close> when the base
  name has no dot and when only dots come before its last dot. The \<open>modified\<close> field is the
  local time of last modification in the format \<open>%Y-%m-%d %H:%M:%S\<close>: for a year of four
  digits, 1000 to 9999, it has the shape \<open>YYYY-MM-DD HH:MM:SS\<close>; it does not depend on the
  microseconds, and two valid times with the same text agree from the year down to the
  second.
\<close>

theorem extension_and_modified:
  assumes "fst (extract_metadata fs s path) = Inr m"
  shows "meta_extension m = extension_of path \<and>
         (basename path = stem @ ''.'' @ e \<and> CHR ''.'' \<notin> set e \<and>
          (\<exists>c\<in>set stem. c \<noteq> CHR ''.'') \<longrightarrow> meta_extension m = ''.'' @ e) \<and>
         (CHR ''.'' \<notin> set (basename path) \<longrightarrow> meta_extension m = ''<no-ext>'') \<and>
         (basename path = stem @ ''.'' @ e \<and> CHR ''.'' \<notin> set e \<and>
          (\<forall>c\<in>set stem. c = CHR ''.'') \<longrightarrow> meta_extension m = ''<no-ext>'') \<and>
         (\<exists>t. getmtime_local fs path = Inr t) \<and>
         (getmtime_local fs path = Inr dt \<longrightarrow>
            meta_modified m = strftime dt \<and>
            (1000 \<le> dt_year dt \<and> dt_year dt \<le> 9999 \<longrightarrow> ymd_hms_format (meta_modified m))) \<and>
         strftime (ta\<lparr>dt_microsecond := u\<rparr>) = strftime ta \<and>
         (strftime ta = strftime tb \<and> valid_datetime ta \<and> valid_datetime tb \<longrightarrow>
            dt_year ta = dt_year tb \<and> dt_month ta = dt_month tb \<and> dt_day ta = dt_day tb \<and>
            dt_hour ta = dt_hour tb \<and> dt_minute ta = dt_minute tb \<and>
            dt_second ta = dt_second tb)"
proof -
  have none: "extract_raises fs path = None" using assms by (rule extract_Inr_raises)
  then obtain sz t where ok: "\<not> str_in ''fail'' (lower (basename path))"
    "getsize fs path = Inr sz" "getmtime_local fs path = Inr t"
    using extract_raises_NoneD by blast
  have m: "m = \<lparr> meta_path = path, meta_size = sz, meta_extension = extension_of path,
            meta_modified = strftime t \<rparr>"
    using assms by (simp add: extract_success [OF ok])
  have a: "meta_extension m = extension_of path" by (simp add: m)
  have b: "meta_extension m = ''.'' @ e"
    if "basename path = stem @ ''.'' @ e \<and> CHR ''.'' \<notin> set e \<and> (\<exists>c\<in>set stem. c \<noteq> CHR ''.'')"
  proof -
    have "snd (splitext path) = CHR ''.'' # e"
      using that by (intro splitext_ext_some [of path stem e]) simp_all
    then show ?thesis by (simp add: a extension_of_def)
  qed
  have c: "meta_extension m = ''<no-ext>''" if "CHR ''.'' \<notin> set (basename path)"
    using splitext_ext_none_nodot [OF that] by (simp add: a extension_of_def)
  have d: "meta_extension m = ''<no-ext>''"
    if "basename path = stem @ ''.'' @ e \<and> CHR ''.'' \<notin> set e \<and> (\<forall>c\<in>set stem. c = CHR ''.'')"
  proof -
    have "snd (splitext path) = []"
      using that by (intro splitext_ext_none_dots [of path stem e]) simp_all
    then show ?thesis by (simp add: a extension_of_def)
  qed
  have e: "\<exists>t. getmtime_local fs path = Inr t" using ok(3) by blast
  have f: "meta_modified m = strftime dt \<and>
      (1000 \<le> dt_year dt \<and> dt_year dt \<le> 9999 \<longrightarrow> ymd_hms_format (meta_modified m))"
    if "getmtime_local fs path = Inr dt"
  proof -
    from that ok(3) have "t = dt" by simp
    then have md: "meta_modified m = strftime dt" by (simp add: m)
    have "ymd_hms_format (strftime dt)" if "1000 \<le> dt_year dt \<and> dt_year dt \<le> 9999"
      using that by (intro strftime_format) simp_all
    with md show ?thesis by simp
  qed
  have g: "strftime (ta\<lparr>dt_microsecond := u\<rparr>) = strftime ta" by (rule strftime_seconds)
  have h: "dt_year ta = dt_year tb \<and> dt_month ta = dt_month tb \<and> dt_day ta = dt_day tb \<and>
      dt_hour ta = dt_hour tb \<and> dt_minute ta = dt_minute tb \<and> dt_second ta = dt_second tb"
    if "strftime ta = strftime tb \<and> valid_datetime ta \<and> valid_datetime tb"
    using that by (intro strftime_inj) simp_all
  from a b c d e f g h show ?thesis by blast
qed

theorem extension_and_modified_witness:
  "fst (extract_metadata demo_fs demo_scanner ''/data/a.txt'') =
     Inr \<lparr> meta_path = ''/data/a.txt'', meta_size = 5, meta_extension = ''.txt'',
            meta_modified = ''2024-03-09 07:05:01'' \<rparr> \<and>
   basename ''/data/a.txt'' = ''a'' @ ''.'' @ ''txt'' \<and> CHR ''.'' \<notin> set ''txt'' \<and>
   CHR ''a'' \<in> set ''a'' \<and> CHR ''a'' \<noteq> CHR ''.'' \<and>
   getmtime_local demo_fs ''/data/a.txt'' = Inr demo_time \<and>
   1000 \<le> dt_year demo_time \<and> dt_year demo_time \<le> 9999 \<and>
   length ''2024-03-09 07:05:01'' = 19 \<and>
   fst (extract_metadata demo_fs demo_scanner ''/data/README'') =
     Inr \<lparr> meta_path = ''/data/README'', meta_size = 5, meta_extension = ''<no-ext>'',
            meta_modified = ''2024-03-09 07:05:01'' \<rparr> \<and>
   CHR ''.'' \<notin> set (basename ''/data/README'') \<and>
   fst (extract_metadata demo_fs demo_scanner ''/data/.bashrc'') =
     Inr \<lparr> meta_path = ''/data/.bashrc'', meta_size = 5, meta_extension = ''<no-ext>'',
            meta_modified = ''2024-03-09 07:05:01'' \<rparr> \<and>
   basename ''/data/.bashrc'' = [] @ ''.'' @ ''bashrc'' \<and> CHR ''.'' \<notin> set ''bashrc'' \<and>
   set ([] :: string) = {} \<and>
   strftime demo_time = strftime (demo_time\<lparr>dt_microsecond := 0\<rparr>) \<and>
   valid_datetime demo_time \<and> valid_datetime (demo_time\<lparr>dt_microsecond := 0\<rparr>) \<and>
   dt_second demo_time = dt_second (demo_time\<lparr>dt_microsecond := 0\<rparr>)"
proof -
  let ?A = "\<lparr> meta_path = ''/data/a.txt'', meta_size = 5, meta_extension = ''.txt'',
            meta_modified = ''2024-03-09 07:05:01'' \<rparr>"
  let ?R = "\<lparr> meta_path = ''/data/README'', meta_size = 5, meta_extension = ''<no-ext>'',
            meta_modified = ''2024-03-09 07:05:01'' \<rparr>"
  let ?B = "\<lparr> meta_path = ''/data/.bashrc'', meta_size = 5, meta_extension = ''<no-ext>'',
            meta_modified = ''2024-03-09 07:05:01'' \<rparr>"
  note ev = extract_metadata_def demo_fs_def demo_time_def
      basename_def Let_def str_in_def lower_def lower_char_def sublist_code
      splitext_def splitext_loop.simps strftime_def pad2_def decimal.simps digit_def
  have a0: "fst (extract_metadata demo_fs demo_scanner ''/data/a.txt'') = Inr ?A"
    by (simp add: ev)
  have a1: "basename ''/data/a.txt'' = ''a'' @ ''.'' @ ''txt'' \<and> CHR ''.'' \<notin> set ''txt'' \<and>
     (\<exists>c\<in>set ''a''. c \<noteq> CHR ''.'')"
    by (simp add: basename_def Let_def)
  have a2: "CHR ''a'' \<in> set ''a'' \<and> CHR ''a'' \<noteq> CHR ''.''" by simp
  have a3: "getmtime_local demo_fs ''/data/a.txt'' = Inr demo_time"
    by (simp add: demo_fs_def)
  have a4: "1000 \<le> dt_year demo_time \<and> dt_year demo_time \<le> 9999"
    by (simp add: demo_time_def)
  have r0: "fst (extract_metadata demo_fs demo_scanner ''/data/README'') = Inr ?R"
    by (simp add: ev)
  have r1: "CHR ''.'' \<notin> set (basename ''/data/README'')"
    by (simp add: basename_def Let_def)
  have b0: "fst (extract_metadata demo_fs demo_scanner ''/data/.bashrc'') = Inr ?B"
    by (simp add: ev)
  have b1: "basename ''/data/.bashrc'' = [] @ ''.'' @ ''bashrc'' \<and> CHR ''.'' \<notin> set ''bashrc'' \<and>
     (\<forall>c\<in>set []. c = CHR ''.'')"
    by (simp add: basename_def Let_def)
  have b2: "set ([] :: string) = {}" by simp
  have t1: "strftime demo_time = strftime (demo_time\<lparr>dt_microsecond := 0\<rparr>) \<and>
     valid_datetime demo_time \<and> valid_datetime (demo_time\<lparr>dt_microsecond := 0\<rparr>)"
    by (simp add: strftime_def valid_datetime_def demo_time_def)
  note TA = extension_and_modified [OF a0, where stem = "''a''" and e = "''txt''"
      and dt = demo_time and ta = demo_time
      and u = 0 and tb = "demo_time\<lparr>dt_microsecond := 0\<rparr>"]
  note TR = extension_and_modified [OF r0, where stem = "''a''" and e = "''txt''"
      and dt = demo_time and ta = demo_time
      and u = 0 and tb = "demo_time\<lparr>dt_microsecond := 0\<rparr>"]
  note TB = extension_and_modified [OF b0, where stem = "[]" and e = "''bashrc''"
      and dt = demo_time and ta = demo_time
      and u = 0 and tb = "demo_time\<lparr>dt_microsecond := 0\<rparr>"]
  from TA a1 have ca: "meta_extension ?A = ''.'' @ ''txt''" by blast
  from TA a3 a4 have cf: "ymd_hms_format (meta_modified ?A)" by blast
  from TR r1 have cr: "meta_extension ?R = ''<no-ext>''" by blast
  from TB b1 have cb: "meta_extension ?B = ''<no-ext>''" by blast
  from TA t1 have ct: "dt_second demo_time = dt_second (demo_time\<lparr>dt_microsecond := 0\<rparr>)"
    by blast
  from cf have cf': "length ''2024-03-09 07:05:01'' = 19" by (simp add: ymd_hms_format_def)
  from a0 a1 a2 a3 a4 cf' r0 r1 b0 b1 b2 t1 ct ca cr cb show ?thesis by blast
qed

end
